theory Spec2Isabelle
  imports Main "HOL-Library.Monad_Syntax"
begin

section \<open>MojoLib hash containers: a shallow embedding\<close>

text \<open>
  The containers of MojoLib (\<^verbatim>\<open>MojoSet\<close>, \<^verbatim>\<open>MojoMultiMap\<close>, \<^verbatim>\<open>MojoRelation\<close>) are
  open-addressed hash tables with linear probing. A key type provides a hash, equality and
  a reserved hash-null value that marks an empty slot.

  Conventions of the embedding.
  \<^item> A key is a value of \<open>'k option\<close>: \<open>None\<close> is the hash-null key (the default-constructed
    key \<^verbatim>\<open>key_T()\<close>), \<open>Some x\<close> is an ordinary key. \<^verbatim>\<open>key.GetHash()\<close> is the parameter
    \<open>h :: 'k option \<Rightarrow> nat\<close> that every probing function takes.
  \<^item> The C++ \<^verbatim>\<open>int\<close> counters are natural numbers: the embedding covers the runs in which
    no counter overflows 32 bits or is negative. A product of two of them can leave the
    32 bits while both factors are within them; the products of \<^verbatim>\<open>MojoSet\<close> and
    \<^verbatim>\<open>MojoMultiMap\<close> are therefore computed by \<open>int32_times\<close>, which wraps around as the
    multiplication of two 32-bit \<^verbatim>\<open>int\<close> does.
  \<^item> A buffer pointer is \<open>'a list option\<close>: \<open>None\<close> is \<^verbatim>\<open>NULL\<close>, \<open>Some xs\<close> an array.
  \<^item> Every operation returns an \<open>option\<close>: \<open>None\<close> means that the C++ call does not return
    normally (a read or write through \<^verbatim>\<open>NULL\<close> or outside the array, \<^verbatim>\<open>% 0\<close>, a negative
    table count, or a loop that never ends).
  \<^item> An allocator is the list of the outcomes of its coming \<^verbatim>\<open>Allocate\<close> calls (\<open>True\<close>: a
    buffer, \<open>False\<close>: \<^verbatim>\<open>NULL\<close>); once the list is used up every call succeeds.
    \<^verbatim>\<open>Free\<close> has no effect on the model.
\<close>

subsection \<open>Status codes and configuration\<close>

text \<open>Modelled from the spec: \<^verbatim>\<open>MojoStatus.h\<close> is not among the sources; the spec lists the
  codes. \<^verbatim>\<open>if( !status )\<close> in the code tests for \<open>kMojoStatus_Ok\<close>.\<close>

datatype MojoStatus =
    kMojoStatus_Ok
  | kMojoStatus_NotInitialized
  | kMojoStatus_DoubleInitialized
  | kMojoStatus_InvalidArguments
  | kMojoStatus_CouldNotAlloc
  | kMojoStatus_NotFound

text \<open>Modelled from the spec: \<^verbatim>\<open>MojoConfig.h\<close> is not among the sources; the fields are the
  ones \<^verbatim>\<open>Create\<close> reads.\<close>

record MojoConfig =
  cfg_AllocCountMin :: nat
  cfg_TableCountMin :: nat
  cfg_GrowThreshold :: nat
  cfg_ShrinkThreshold :: nat
  cfg_AutoGrow :: bool
  cfg_AutoShrink :: bool
  cfg_DynamicAlloc :: bool

type_synonym MojoAlloc = "bool list"

definition Allocate :: "MojoAlloc \<Rightarrow> bool \<times> MojoAlloc" where
  "Allocate a = (case a of [] \<Rightarrow> (True, []) | b # bs \<Rightarrow> (b, bs))"

text \<open>\<^verbatim>\<open>a * b\<close> on two \<^verbatim>\<open>int\<close> values that are not negative: the product modulo \<open>2^32\<close>, read
  as a signed 32-bit number.\<close>

definition int32_times :: "nat \<Rightarrow> nat \<Rightarrow> int" where
  "int32_times a b = (int a * int b + 2147483648) mod 4294967296 - 2147483648"

subsection \<open>The fields shared by the tables\<close>

record MojoTable =
  m_Alloc :: "MojoAlloc option"
  m_ActiveCount :: nat
  m_AllocCount :: nat
  m_TableCount :: nat
  m_ChangeCount :: nat
  m_Status :: MojoStatus
  m_AllocCountMin :: nat
  m_TableCountMin :: nat
  m_GrowThreshold :: nat
  m_ShrinkThreshold :: nat
  m_AutoGrow :: bool
  m_AutoShrink :: bool
  m_DynamicAlloc :: bool

subsection \<open>MojoSet\<close>

record 'k MojoSet = MojoTable +
  m_Keys :: "'k option list option"

text \<open>\<^verbatim>\<open>m_Keys[ i ]\<close> as a read and as a write.\<close>

definition KeyAt :: "'k MojoSet \<Rightarrow> nat \<Rightarrow> 'k option option" where
  "KeyAt s i =
     (case m_Keys s of
        None \<Rightarrow> None
      | Some ks \<Rightarrow> if i < length ks then Some (ks ! i) else None)"

definition SetKeyAt :: "'k MojoSet \<Rightarrow> nat \<Rightarrow> 'k option \<Rightarrow> 'k MojoSet option" where
  "SetKeyAt s i k =
     (case m_Keys s of
        None \<Rightarrow> None
      | Some ks \<Rightarrow> if i < length ks then Some (s\<lparr>m_Keys := Some (ks[i := k])\<rparr>) else None)"

text \<open>One \<^verbatim>\<open>for\<close> loop of \<^verbatim>\<open>FindEmptyOrMatching\<close> over the indices \<open>is\<close>:
  \<open>Some (Some i)\<close> is \<^verbatim>\<open>return i\<close>, \<open>Some None\<close> is the loop running to its end.\<close>

fun MojoSet_FindLoop :: "'k MojoSet \<Rightarrow> 'k option \<Rightarrow> nat list \<Rightarrow> nat option option" where
  "MojoSet_FindLoop s key [] = Some None"
| "MojoSet_FindLoop s key (i # is) =
     (case KeyAt s i of
        None \<Rightarrow> None
      | Some k \<Rightarrow> if k = None \<or> k = key then Some (Some i) else MojoSet_FindLoop s key is)"

definition MojoSet_FindEmptyOrMatching ::
  "('k option \<Rightarrow> nat) \<Rightarrow> 'k MojoSet \<Rightarrow> 'k option \<Rightarrow> nat option" where
  "MojoSet_FindEmptyOrMatching h s key =
     (if m_TableCount s = 0 then None
      else
        let start_index = h key mod m_TableCount s in
        case MojoSet_FindLoop s key [start_index ..< m_TableCount s] of
          None \<Rightarrow> None
        | Some (Some i) \<Rightarrow> Some i
        | Some None \<Rightarrow>
            (case MojoSet_FindLoop s key [0 ..< start_index] of
               None \<Rightarrow> None
             | Some (Some i) \<Rightarrow> Some i
             | Some None \<Rightarrow> Some 0))"

definition MojoSet_Reinsert :: "('k option \<Rightarrow> nat) \<Rightarrow> 'k MojoSet \<Rightarrow> nat \<Rightarrow> 'k MojoSet option" where
  "MojoSet_Reinsert h s index =
     do {
       k \<leftarrow> KeyAt s index;
       new_index \<leftarrow> MojoSet_FindEmptyOrMatching h s k;
       if new_index \<noteq> index
       then do { s1 \<leftarrow> SetKeyAt s new_index k; SetKeyAt s1 index None }
       else Some s
     }"

text \<open>The loops of \<^verbatim>\<open>Resize\<close> and \<^verbatim>\<open>RemoveOne\<close> over a range of slots.
  \<open>MojoSet_ReinsertEach\<close>: \<^verbatim>\<open>if( !m_Keys[ i ].IsHashNull() ) Reinsert( i )\<close> for every index.
  \<open>MojoSet_ReinsertRun\<close>: stop at the first empty slot; the flag says whether the loop
  stopped there.\<close>

fun MojoSet_ReinsertEach ::
  "('k option \<Rightarrow> nat) \<Rightarrow> 'k MojoSet \<Rightarrow> nat list \<Rightarrow> 'k MojoSet option" where
  "MojoSet_ReinsertEach h s [] = Some s"
| "MojoSet_ReinsertEach h s (i # is) =
     (case KeyAt s i of
        None \<Rightarrow> None
      | Some None \<Rightarrow> MojoSet_ReinsertEach h s is
      | Some (Some x) \<Rightarrow>
          (case MojoSet_Reinsert h s i of
             None \<Rightarrow> None
           | Some s' \<Rightarrow> MojoSet_ReinsertEach h s' is))"

fun MojoSet_ReinsertRun ::
  "('k option \<Rightarrow> nat) \<Rightarrow> 'k MojoSet \<Rightarrow> nat list \<Rightarrow> ('k MojoSet \<times> bool) option" where
  "MojoSet_ReinsertRun h s [] = Some (s, False)"
| "MojoSet_ReinsertRun h s (i # is) =
     (case KeyAt s i of
        None \<Rightarrow> None
      | Some None \<Rightarrow> Some (s, True)
      | Some (Some x) \<Rightarrow>
          (case MojoSet_Reinsert h s i of
             None \<Rightarrow> None
           | Some s' \<Rightarrow> MojoSet_ReinsertRun h s' is))"

definition MojoSet_RemoveOne ::
  "('k option \<Rightarrow> nat) \<Rightarrow> 'k MojoSet \<Rightarrow> 'k option \<Rightarrow> ('k MojoSet \<times> bool) option" where
  "MojoSet_RemoveOne h s key =
     (if key = None then Some (s, False)
      else do {
        index \<leftarrow> MojoSet_FindEmptyOrMatching h s key;
        k \<leftarrow> KeyAt s index;
        if k = None then Some (s, False)
        else do {
          s1 \<leftarrow> SetKeyAt s index None;
          (s2, stopped) \<leftarrow>
            MojoSet_ReinsertRun h (s1\<lparr>m_ActiveCount := m_ActiveCount s1 - 1\<rparr>)
              [index + 1 ..< m_TableCount s1];
          if stopped then Some (s2, True)
          else do {
            (s3, _) \<leftarrow> MojoSet_ReinsertRun h s2 [0 ..< index];
            Some (s3, True)
          }
        }
      })"

text \<open>\<^verbatim>\<open>Insert\<close>, \<^verbatim>\<open>Grow\<close> and \<^verbatim>\<open>Resize\<close> call one another: \<^verbatim>\<open>Insert\<close> grows the table
  first, and \<^verbatim>\<open>Resize\<close> fills a fresh buffer with \<^verbatim>\<open>Insert\<close>. They are one recursive
  function over the call that is made; \<open>None\<close> is also the value of a recursion that does
  not end.

  \<^verbatim>\<open>Resize\<close> calls \<^verbatim>\<open>Construct( m_Keys, m_AllocCount )\<close> on what \<^verbatim>\<open>Allocate\<close> returned, before
  any test of the pointer: where \<^verbatim>\<open>Allocate\<close> returns \<^verbatim>\<open>NULL\<close>, \<^verbatim>\<open>Construct\<close> writes through
  it and \<^verbatim>\<open>Resize\<close> does not return (\<open>None\<close>). In \<^verbatim>\<open>Grow\<close> the two sides of the test and
  the doubled table count are 32-bit products; a doubled table count that has wrapped to
  a negative number is no table count (\<open>None\<close>).\<close>

datatype 'k MojoSet_call =
    Call_Insert "'k MojoSet" "'k option"
  | Call_Grow "'k MojoSet"
  | Call_Resize "'k MojoSet" nat nat
  | Call_InsertOld "'k MojoSet" "'k option list" "nat list"

partial_function (option) MojoSet_run ::
  "('k option \<Rightarrow> nat) \<Rightarrow> 'k MojoSet_call \<Rightarrow> ('k MojoSet \<times> MojoStatus) option" where
  "MojoSet_run h c =
     (case c of
        Call_Insert s key \<Rightarrow>
          if m_Status s \<noteq> kMojoStatus_Ok then Some (s, m_Status s)
          else if key = None then Some (s, kMojoStatus_InvalidArguments)
          else do {
            (s1, _) \<leftarrow> (if m_AutoGrow s then MojoSet_run h (Call_Grow s)
                        else Some (s, kMojoStatus_Ok));
            if m_ActiveCount s1 < m_TableCount s1
            then do {
              index \<leftarrow> MojoSet_FindEmptyOrMatching h s1 key;
              k \<leftarrow> KeyAt s1 index;
              if k = None
              then do {
                s2 \<leftarrow> SetKeyAt s1 index key;
                Some (s2\<lparr>m_ActiveCount := m_ActiveCount s2 + 1,
                          m_ChangeCount := m_ChangeCount s2 + 1\<rparr>, kMojoStatus_Ok)
              }
              else Some (s1, kMojoStatus_Ok)
            }
            else Some (s1, kMojoStatus_CouldNotAlloc)
          }
      | Call_Grow s \<Rightarrow>
          if int32_times (m_ActiveCount s) 100 \<ge> int32_times (m_TableCount s) (m_GrowThreshold s)
          then
            if int32_times (m_TableCount s) 2 < 0 then None
            else
              let new_table_count = nat (int32_times (m_TableCount s) 2);
                  new_capacity = max (m_AllocCount s) new_table_count
              in if \<not> m_DynamicAlloc s
                 then MojoSet_run h
                        (Call_Resize s (min new_table_count (m_AllocCount s)) (m_AllocCount s))
                 else MojoSet_run h (Call_Resize s new_table_count new_capacity)
          else Some (s, kMojoStatus_Ok)
      | Call_Resize s new_table_count new_capacity \<Rightarrow>
          (case m_Alloc s of
             Some a \<Rightarrow>
               if m_AllocCount s \<noteq> new_capacity
               then
                 let old_keys = m_Keys s;
                     old_table_count = m_TableCount s;
                     s1 = s\<lparr>m_AllocCount := new_capacity, m_TableCount := new_table_count,
                            m_ActiveCount := 0\<rparr>
                 in (case (if new_capacity \<noteq> 0
                           then let (ok, a') = Allocate a
                                in if ok
                                   then Some (s1\<lparr>m_Alloc := Some a',
                                                 m_Keys := Some (replicate new_capacity None)\<rparr>)
                                   else None
                           else Some (s1\<lparr>m_Keys := None\<rparr>)) of
                       None \<Rightarrow> None
                     | Some s2 \<Rightarrow>
                         (case old_keys of
                            None \<Rightarrow> Some (s2, kMojoStatus_Ok)
                          | Some old \<Rightarrow>
                              if m_Keys s2 = None then Some (s2, kMojoStatus_Ok)
                              else MojoSet_run h (Call_InsertOld s2 old [0 ..< old_table_count])))
               else if new_table_count < m_TableCount s
               then map_option (\<lambda>s'. (s', kMojoStatus_Ok))
                      (MojoSet_ReinsertEach h (s\<lparr>m_TableCount := new_table_count\<rparr>)
                         [0 ..< m_TableCount s])
               else if new_table_count > m_TableCount s
               then do {
                 s1 \<leftarrow> MojoSet_ReinsertEach h (s\<lparr>m_TableCount := new_table_count\<rparr>)
                         [0 ..< m_TableCount s];
                 (s2, _) \<leftarrow> MojoSet_ReinsertRun h s1 [m_TableCount s ..< new_table_count];
                 Some (s2, kMojoStatus_Ok)
               }
               else Some (s, kMojoStatus_Ok)
           | None \<Rightarrow>
               if new_table_count < m_TableCount s
               then map_option (\<lambda>s'. (s', kMojoStatus_Ok))
                      (MojoSet_ReinsertEach h (s\<lparr>m_TableCount := new_table_count\<rparr>)
                         [0 ..< m_TableCount s])
               else if new_table_count > m_TableCount s
               then do {
                 s1 \<leftarrow> MojoSet_ReinsertEach h (s\<lparr>m_TableCount := new_table_count\<rparr>)
                         [0 ..< m_TableCount s];
                 (s2, _) \<leftarrow> MojoSet_ReinsertRun h s1 [m_TableCount s ..< new_table_count];
                 Some (s2, kMojoStatus_Ok)
               }
               else Some (s, kMojoStatus_Ok))
      | Call_InsertOld s old is \<Rightarrow>
          (case is of
             [] \<Rightarrow> Some (s, kMojoStatus_Ok)
           | i # rest \<Rightarrow>
               if i < length old
               then if old ! i \<noteq> None
                    then do {
                      (s1, _) \<leftarrow> MojoSet_run h (Call_Insert s (old ! i));
                      MojoSet_run h (Call_InsertOld s1 old rest)
                    }
                    else MojoSet_run h (Call_InsertOld s old rest)
               else None))"

declare MojoSet_run.simps [code]

definition MojoSet_Insert ::
  "('k option \<Rightarrow> nat) \<Rightarrow> 'k MojoSet \<Rightarrow> 'k option \<Rightarrow> ('k MojoSet \<times> MojoStatus) option" where
  "MojoSet_Insert h s key = MojoSet_run h (Call_Insert s key)"

definition MojoSet_Grow :: "('k option \<Rightarrow> nat) \<Rightarrow> 'k MojoSet \<Rightarrow> 'k MojoSet option" where
  "MojoSet_Grow h s = map_option fst (MojoSet_run h (Call_Grow s))"


definition MojoSet_Resize ::
  "('k option \<Rightarrow> nat) \<Rightarrow> 'k MojoSet \<Rightarrow> nat \<Rightarrow> nat \<Rightarrow> 'k MojoSet option" where
  "MojoSet_Resize h s new_table_count new_capacity =
     map_option fst (MojoSet_run h (Call_Resize s new_table_count new_capacity))"

definition MojoSet_Shrink :: "('k option \<Rightarrow> nat) \<Rightarrow> 'k MojoSet \<Rightarrow> 'k MojoSet option" where
  "MojoSet_Shrink h s =
     (if m_TableCount s > m_TableCountMin s
         \<and> int32_times (m_ActiveCount s) 100 < int32_times (m_TableCount s) (m_ShrinkThreshold s)
      then
        let new_table_count = max (m_TableCount s div 2) (m_TableCountMin s);
            new_capacity = max new_table_count (m_AllocCountMin s)
        in if \<not> m_DynamicAlloc s
           then MojoSet_Resize h s new_table_count (m_AllocCount s)
           else MojoSet_Resize h s new_table_count new_capacity
      else Some s)"

definition MojoSet_AutoShrink :: "('k option \<Rightarrow> nat) \<Rightarrow> 'k MojoSet \<Rightarrow> 'k MojoSet option" where
  "MojoSet_AutoShrink h s = (if m_AutoShrink s then MojoSet_Shrink h s else Some s)"

definition MojoSet_Remove ::
  "('k option \<Rightarrow> nat) \<Rightarrow> 'k MojoSet \<Rightarrow> 'k option \<Rightarrow> ('k MojoSet \<times> MojoStatus) option" where
  "MojoSet_Remove h s key =
     (if m_Status s \<noteq> kMojoStatus_Ok then Some (s, m_Status s)
      else if key \<noteq> None
      then do {
        (s1, removed) \<leftarrow> MojoSet_RemoveOne h s key;
        if removed
        then do {
          s2 \<leftarrow> MojoSet_AutoShrink h (s1\<lparr>m_ChangeCount := m_ChangeCount s1 + 1\<rparr>);
          Some (s2, kMojoStatus_Ok)
        }
        else Some (s1, kMojoStatus_NotFound)
      }
      else Some (s, kMojoStatus_NotFound))"

definition MojoSet_Update ::
  "('k option \<Rightarrow> nat) \<Rightarrow> 'k MojoSet \<Rightarrow> ('k MojoSet \<times> MojoStatus) option" where
  "MojoSet_Update h s =
     (if m_Status s = kMojoStatus_Ok
      then do {
        s1 \<leftarrow> MojoSet_Grow h s;
        s2 \<leftarrow> MojoSet_Shrink h s1;
        Some (s2, m_Status s)
      }
      else Some (s, m_Status s))"

definition MojoSet_Contains :: "('k option \<Rightarrow> nat) \<Rightarrow> 'k MojoSet \<Rightarrow> 'k option \<Rightarrow> bool option" where
  "MojoSet_Contains h s key =
     (if m_Status s = kMojoStatus_Ok \<and> key \<noteq> None
      then do {
        index \<leftarrow> MojoSet_FindEmptyOrMatching h s key;
        k \<leftarrow> KeyAt s index;
        Some (k \<noteq> None)
      }
      else Some False)"

definition MojoSet_GetCount :: "'k MojoSet \<Rightarrow> nat" where
  "MojoSet_GetCount s = m_ActiveCount s"


definition MojoSet_Init :: "'k MojoSet \<Rightarrow> 'k MojoSet" where
  "MojoSet_Init s =
     s\<lparr>m_Alloc := None, m_Keys := None, m_TableCount := 0, m_AllocCount := 0,
       m_ActiveCount := 0, m_ChangeCount := 0, m_Status := kMojoStatus_NotInitialized\<rparr>"

text \<open>The default constructor. The configuration fields are not initialised by the C++
  constructor and are written by \<^verbatim>\<open>Create\<close> before they are read; here they start at
  \<open>0\<close> and \<open>False\<close>.\<close>

definition MojoSet_new :: "'k MojoSet" where
  "MojoSet_new =
     MojoSet_Init
       \<lparr>m_Alloc = None, m_ActiveCount = 0, m_AllocCount = 0, m_TableCount = 0,
        m_ChangeCount = 0, m_Status = kMojoStatus_NotInitialized,
        m_AllocCountMin = 0, m_TableCountMin = 0, m_GrowThreshold = 0,
        m_ShrinkThreshold = 0, m_AutoGrow = False, m_AutoShrink = False,
        m_DynamicAlloc = False, m_Keys = None\<rparr>"

text \<open>\<^verbatim>\<open>Create\<close>, with the configuration and the allocator already resolved to the given or
  the default one. \<open>fixed_array\<close> is the caller's buffer (\<open>None\<close> for \<^verbatim>\<open>NULL\<close>).\<close>

definition MojoSet_Create ::
  "('k option \<Rightarrow> nat) \<Rightarrow> 'k MojoSet \<Rightarrow> MojoConfig \<Rightarrow> MojoAlloc \<Rightarrow> 'k option list option \<Rightarrow> nat
     \<Rightarrow> ('k MojoSet \<times> MojoStatus) option" where
  "MojoSet_Create h s config alloc fixed_array fixed_array_count =
     (if m_Status s \<noteq> kMojoStatus_NotInitialized
      then Some (s\<lparr>m_Status := kMojoStatus_DoubleInitialized\<rparr>, kMojoStatus_DoubleInitialized)
      else if cfg_AllocCountMin config \<le> 1 \<or> cfg_TableCountMin config \<le> 1
              \<or> int (cfg_GrowThreshold config) \<le> int32_times (cfg_ShrinkThreshold config) 2
      then Some (s\<lparr>m_Status := kMojoStatus_InvalidArguments\<rparr>, kMojoStatus_InvalidArguments)
      else
        let a = (if fixed_array \<noteq> None then None else Some alloc);
            s1 = s\<lparr>m_Status := kMojoStatus_Ok,
                   m_Alloc := a,
                   m_Keys := fixed_array,
                   m_AllocCount := fixed_array_count,
                   m_ActiveCount := 0,
                   m_AllocCountMin := cfg_AllocCountMin config,
                   m_TableCountMin := cfg_TableCountMin config,
                   m_GrowThreshold := cfg_GrowThreshold config,
                   m_ShrinkThreshold := cfg_ShrinkThreshold config,
                   m_AutoGrow := cfg_AutoGrow config,
                   m_AutoShrink := cfg_AutoShrink config,
                   m_DynamicAlloc := (cfg_DynamicAlloc config \<and> a \<noteq> None)\<rparr>
        in do {
          s2 \<leftarrow> (if m_Keys s1 = None
                 then MojoSet_Resize h s1 (m_TableCountMin s1)
                        (max (m_AllocCountMin s1) (m_TableCountMin s1))
                 else Some s1);
          let s3 = (if m_Keys s2 = None then s2\<lparr>m_Status := kMojoStatus_CouldNotAlloc\<rparr> else s2)
          in Some (s3, m_Status s3)
        })"

subsection \<open>MojoMultiMap\<close>

text \<open>Modelled from the spec: \<^verbatim>\<open>MojoKeyValue.h\<close> is not among the sources. A slot is a
  pair of a key and a value (\<^verbatim>\<open>.key\<close> is \<open>fst\<close>, \<^verbatim>\<open>.value\<close> is \<open>snd\<close>); the
  default-constructed slot \<^verbatim>\<open>KeyValue()\<close> is empty. A value is a \<open>'v option\<close> as a key is:
  \<open>None\<close> is the value for which \<^verbatim>\<open>IsHashNull()\<close> holds.\<close>

type_synonym ('k, 'v) KeyValue = "'k option \<times> 'v option"

definition KeyValue_empty :: "('k, 'v) KeyValue" where
  "KeyValue_empty = (None, None)"

record ('k, 'v) MojoMultiMap = MojoTable +
  m_KeyValues :: "('k, 'v) KeyValue list option"
  m_NotFoundValue :: "'v option"

definition KeyValueAt :: "('k, 'v) MojoMultiMap \<Rightarrow> nat \<Rightarrow> ('k, 'v) KeyValue option" where
  "KeyValueAt m i =
     (case m_KeyValues m of
        None \<Rightarrow> None
      | Some kvs \<Rightarrow> if i < length kvs then Some (kvs ! i) else None)"

definition SetKeyValueAt ::
  "('k, 'v) MojoMultiMap \<Rightarrow> nat \<Rightarrow> ('k, 'v) KeyValue \<Rightarrow> ('k, 'v) MojoMultiMap option" where
  "SetKeyValueAt m i kv =
     (case m_KeyValues m of
        None \<Rightarrow> None
      | Some kvs \<Rightarrow>
          if i < length kvs then Some (m\<lparr>m_KeyValues := Some (kvs[i := kv])\<rparr>) else None)"

text \<open>The two overloads of \<^verbatim>\<open>FindEmptyOrMatching\<close>: by key, and by key and value
  (\<open>MojoMultiMap_FindEmptyOrMatchingPair\<close>). \<open>hit\<close> is the test of the loop body.\<close>

fun MojoMultiMap_FindLoop ::
  "(('k, 'v) KeyValue \<Rightarrow> bool) \<Rightarrow> ('k, 'v) MojoMultiMap \<Rightarrow> nat list \<Rightarrow> nat option option" where
  "MojoMultiMap_FindLoop hit m [] = Some None"
| "MojoMultiMap_FindLoop hit m (i # is) =
     (case KeyValueAt m i of
        None \<Rightarrow> None
      | Some kv \<Rightarrow> if hit kv then Some (Some i) else MojoMultiMap_FindLoop hit m is)"

definition MojoMultiMap_FindWith ::
  "(('k, 'v) KeyValue \<Rightarrow> bool) \<Rightarrow> ('k option \<Rightarrow> nat) \<Rightarrow> ('k, 'v) MojoMultiMap \<Rightarrow> 'k option
     \<Rightarrow> nat option" where
  "MojoMultiMap_FindWith hit h m key =
     (if m_TableCount m = 0 then None
      else
        let start_index = h key mod m_TableCount m in
        case MojoMultiMap_FindLoop hit m [start_index ..< m_TableCount m] of
          None \<Rightarrow> None
        | Some (Some i) \<Rightarrow> Some i
        | Some None \<Rightarrow>
            (case MojoMultiMap_FindLoop hit m [0 ..< start_index] of
               None \<Rightarrow> None
             | Some (Some i) \<Rightarrow> Some i
             | Some None \<Rightarrow> Some 0))"

definition MojoMultiMap_FindEmptyOrMatching ::
  "('k option \<Rightarrow> nat) \<Rightarrow> ('k, 'v) MojoMultiMap \<Rightarrow> 'k option \<Rightarrow> nat option" where
  "MojoMultiMap_FindEmptyOrMatching h m key =
     MojoMultiMap_FindWith (\<lambda>kv. fst kv = None \<or> fst kv = key) h m key"

definition MojoMultiMap_FindEmptyOrMatchingPair ::
  "('k option \<Rightarrow> nat) \<Rightarrow> ('k, 'v) MojoMultiMap \<Rightarrow> 'k option \<Rightarrow> 'v option \<Rightarrow> nat option" where
  "MojoMultiMap_FindEmptyOrMatchingPair h m key val =
     MojoMultiMap_FindWith (\<lambda>kv. fst kv = None \<or> (fst kv = key \<and> snd kv = val)) h m key"

definition MojoMultiMap_Reinsert ::
  "('k option \<Rightarrow> nat) \<Rightarrow> ('k, 'v) MojoMultiMap \<Rightarrow> nat \<Rightarrow> ('k, 'v) MojoMultiMap option" where
  "MojoMultiMap_Reinsert h m index =
     do {
       kv \<leftarrow> KeyValueAt m index;
       new_index \<leftarrow> MojoMultiMap_FindEmptyOrMatchingPair h m (fst kv) (snd kv);
       if new_index \<noteq> index
       then do { m1 \<leftarrow> SetKeyValueAt m new_index kv; SetKeyValueAt m1 index KeyValue_empty }
       else Some m
     }"

fun MojoMultiMap_ReinsertEach ::
  "('k option \<Rightarrow> nat) \<Rightarrow> ('k, 'v) MojoMultiMap \<Rightarrow> nat list \<Rightarrow> ('k, 'v) MojoMultiMap option" where
  "MojoMultiMap_ReinsertEach h m [] = Some m"
| "MojoMultiMap_ReinsertEach h m (i # is) =
     (case KeyValueAt m i of
        None \<Rightarrow> None
      | Some kv \<Rightarrow>
          if fst kv = None then MojoMultiMap_ReinsertEach h m is
          else (case MojoMultiMap_Reinsert h m i of
                  None \<Rightarrow> None
                | Some m' \<Rightarrow> MojoMultiMap_ReinsertEach h m' is))"

fun MojoMultiMap_ReinsertRun ::
  "('k option \<Rightarrow> nat) \<Rightarrow> ('k, 'v) MojoMultiMap \<Rightarrow> nat list \<Rightarrow> ('k, 'v) MojoMultiMap option" where
  "MojoMultiMap_ReinsertRun h m [] = Some m"
| "MojoMultiMap_ReinsertRun h m (i # is) =
     (case KeyValueAt m i of
        None \<Rightarrow> None
      | Some kv \<Rightarrow>
          if fst kv = None then Some m
          else (case MojoMultiMap_Reinsert h m i of
                  None \<Rightarrow> None
                | Some m' \<Rightarrow> MojoMultiMap_ReinsertRun h m' is))"

text \<open>\<^verbatim>\<open>FixUp( index, count )\<close>. One loop over the indices \<open>is\<close> returns the table, what
  is left of \<open>count\<close>, and whether \<^verbatim>\<open>if( !count-- ) return\<close> left the function.\<close>

fun MojoMultiMap_FixUpLoop ::
  "('k option \<Rightarrow> nat) \<Rightarrow> ('k, 'v) MojoMultiMap \<Rightarrow> nat list \<Rightarrow> nat
     \<Rightarrow> (('k, 'v) MojoMultiMap \<times> nat \<times> bool) option" where
  "MojoMultiMap_FixUpLoop h m [] count = Some (m, count, False)"
| "MojoMultiMap_FixUpLoop h m (i # is) count =
     (if count = 0 then Some (m, count, True)
      else case KeyValueAt m i of
             None \<Rightarrow> None
           | Some kv \<Rightarrow>
               if fst kv \<noteq> None
               then (case MojoMultiMap_Reinsert h m i of
                       None \<Rightarrow> None
                     | Some m' \<Rightarrow> MojoMultiMap_FixUpLoop h m' is (count - 1))
               else MojoMultiMap_FixUpLoop h m is (count - 1))"

definition MojoMultiMap_FixUp ::
  "('k option \<Rightarrow> nat) \<Rightarrow> ('k, 'v) MojoMultiMap \<Rightarrow> nat \<Rightarrow> nat \<Rightarrow> ('k, 'v) MojoMultiMap option" where
  "MojoMultiMap_FixUp h m index count =
     do {
       (m1, count1, returned) \<leftarrow> MojoMultiMap_FixUpLoop h m [index + 1 ..< m_TableCount m] count;
       if returned then Some m1
       else do {
         (m2, _, _) \<leftarrow> MojoMultiMap_FixUpLoop h m1 [0 ..< index] count1;
         Some m2
       }
     }"

text \<open>The \<^verbatim>\<open>while\<close> loop of \<^verbatim>\<open>RemoveAll\<close> and of \<^verbatim>\<open>RemoveOne\<close>: from slot \<open>i\<close> on, clear
  the slots that \<open>doomed\<close> selects until an empty slot is met, counting the slots passed.
  The loop has no bound of its own; where it does not end the value is \<open>None\<close>.\<close>

partial_function (option) MojoMultiMap_ClearRun ::
  "(('k, 'v) KeyValue \<Rightarrow> bool) \<Rightarrow> ('k, 'v) MojoMultiMap \<Rightarrow> nat \<Rightarrow> nat
     \<Rightarrow> (('k, 'v) MojoMultiMap \<times> nat) option" where
  "MojoMultiMap_ClearRun doomed m i count =
     (case KeyValueAt m i of
        None \<Rightarrow> None
      | Some kv \<Rightarrow>
          if fst kv = None then Some (m, count)
          else if m_TableCount m = 0 then None
          else if doomed kv
          then (case SetKeyValueAt m i KeyValue_empty of
                  None \<Rightarrow> None
                | Some m1 \<Rightarrow>
                    MojoMultiMap_ClearRun doomed (m1\<lparr>m_ActiveCount := m_ActiveCount m1 - 1\<rparr>)
                      ((i + 1) mod m_TableCount m) (count + 1))
          else MojoMultiMap_ClearRun doomed m ((i + 1) mod m_TableCount m) (count + 1))"

declare MojoMultiMap_ClearRun.simps [code]

definition MojoMultiMap_RemoveAll ::
  "('k option \<Rightarrow> nat) \<Rightarrow> ('k, 'v) MojoMultiMap \<Rightarrow> 'k option
     \<Rightarrow> (('k, 'v) MojoMultiMap \<times> bool) option" where
  "MojoMultiMap_RemoveAll h m key =
     (let before_count = m_ActiveCount m in
      if key \<noteq> None
      then do {
        index \<leftarrow> MojoMultiMap_FindEmptyOrMatching h m key;
        kv \<leftarrow> KeyValueAt m index;
        if fst kv \<noteq> None
        then do {
          (m1, count) \<leftarrow> MojoMultiMap_ClearRun (\<lambda>kv. fst kv = key) m index 0;
          m2 \<leftarrow> MojoMultiMap_FixUp h m1 index count;
          Some (m2, m_ActiveCount m2 < before_count)
        }
        else Some (m, m_ActiveCount m < before_count)
      }
      else Some (m, m_ActiveCount m < before_count))"

definition MojoMultiMap_RemoveOne ::
  "('k option \<Rightarrow> nat) \<Rightarrow> ('k, 'v) MojoMultiMap \<Rightarrow> 'k option \<Rightarrow> 'v option
     \<Rightarrow> (('k, 'v) MojoMultiMap \<times> bool) option" where
  "MojoMultiMap_RemoveOne h m key val =
     (let before_count = m_ActiveCount m in
      if key \<noteq> None \<and> val \<noteq> None
      then do {
        index \<leftarrow> MojoMultiMap_FindEmptyOrMatching h m key;
        kv \<leftarrow> KeyValueAt m index;
        if fst kv \<noteq> None
        then do {
          (m1, count) \<leftarrow>
            MojoMultiMap_ClearRun (\<lambda>kv. fst kv = key \<and> snd kv = val) m index 0;
          m2 \<leftarrow> MojoMultiMap_FixUp h m1 index count;
          Some (m2, m_ActiveCount m2 < before_count)
        }
        else Some (m, m_ActiveCount m < before_count)
      }
      else Some (m, m_ActiveCount m < before_count))"

text \<open>\<^verbatim>\<open>Insert\<close>, \<^verbatim>\<open>Grow\<close> and \<^verbatim>\<open>Resize\<close> of the multimap, one recursive function as for
  the set, with the same \<^verbatim>\<open>Construct\<close> on the pointer that \<^verbatim>\<open>Allocate\<close> returned and the
  same 32-bit products.\<close>

datatype ('k, 'v) MojoMultiMap_call =
    CallMM_Insert "('k, 'v) MojoMultiMap" "'k option" "'v option"
  | CallMM_Grow "('k, 'v) MojoMultiMap"
  | CallMM_Resize "('k, 'v) MojoMultiMap" nat nat
  | CallMM_InsertOld "('k, 'v) MojoMultiMap" "('k, 'v) KeyValue list" "nat list"

partial_function (option) MojoMultiMap_run ::
  "('k option \<Rightarrow> nat) \<Rightarrow> ('k, 'v) MojoMultiMap_call
     \<Rightarrow> (('k, 'v) MojoMultiMap \<times> MojoStatus) option" where
  "MojoMultiMap_run h c =
     (case c of
        CallMM_Insert m key val \<Rightarrow>
          if m_Status m \<noteq> kMojoStatus_Ok then Some (m, m_Status m)
          else if key = None then Some (m, kMojoStatus_InvalidArguments)
          else do {
            (m1, _) \<leftarrow> (if m_AutoGrow m then MojoMultiMap_run h (CallMM_Grow m)
                        else Some (m, kMojoStatus_Ok));
            if m_ActiveCount m1 < m_TableCount m1
            then do {
              index \<leftarrow> MojoMultiMap_FindEmptyOrMatchingPair h m1 key val;
              kv \<leftarrow> KeyValueAt m1 index;
              if fst kv = None
              then do {
                m2 \<leftarrow> SetKeyValueAt m1 index (key, val);
                Some (m2\<lparr>m_ActiveCount := m_ActiveCount m2 + 1,
                          m_ChangeCount := m_ChangeCount m2 + 1\<rparr>, kMojoStatus_Ok)
              }
              else Some (m1, kMojoStatus_Ok)
            }
            else Some (m1, kMojoStatus_CouldNotAlloc)
          }
      | CallMM_Grow m \<Rightarrow>
          if int32_times (m_ActiveCount m) 100 \<ge> int32_times (m_TableCount m) (m_GrowThreshold m)
          then
            if int32_times (m_TableCount m) 2 < 0 then None
            else
              let new_table_count = nat (int32_times (m_TableCount m) 2);
                  new_capacity = max (m_AllocCount m) new_table_count
              in if \<not> m_DynamicAlloc m
                 then MojoMultiMap_run h
                        (CallMM_Resize m (min new_table_count (m_AllocCount m)) (m_AllocCount m))
                 else MojoMultiMap_run h (CallMM_Resize m new_table_count new_capacity)
          else Some (m, kMojoStatus_Ok)
      | CallMM_Resize m new_table_count new_capacity \<Rightarrow>
          (case m_Alloc m of
             Some a \<Rightarrow>
               if m_AllocCount m \<noteq> new_capacity
               then
                 let old_key_values = m_KeyValues m;
                     old_table_count = m_TableCount m;
                     m1 = m\<lparr>m_AllocCount := new_capacity, m_TableCount := new_table_count,
                            m_ActiveCount := 0\<rparr>
                 in (case (if new_capacity \<noteq> 0
                           then let (ok, a') = Allocate a
                                in if ok
                                   then Some (m1\<lparr>m_Alloc := Some a',
                                                 m_KeyValues :=
                                                   Some (replicate new_capacity KeyValue_empty)\<rparr>)
                                   else None
                           else Some (m1\<lparr>m_KeyValues := None\<rparr>)) of
                       None \<Rightarrow> None
                     | Some m2 \<Rightarrow>
                         (case old_key_values of
                            None \<Rightarrow> Some (m2, kMojoStatus_Ok)
                          | Some old \<Rightarrow>
                              if m_KeyValues m2 = None then Some (m2, kMojoStatus_Ok)
                              else MojoMultiMap_run h
                                     (CallMM_InsertOld m2 old [0 ..< old_table_count])))
               else if new_table_count < m_TableCount m
               then map_option (\<lambda>m'. (m', kMojoStatus_Ok))
                      (MojoMultiMap_ReinsertEach h (m\<lparr>m_TableCount := new_table_count\<rparr>)
                         [0 ..< m_TableCount m])
               else if new_table_count > m_TableCount m
               then do {
                 m1 \<leftarrow> MojoMultiMap_ReinsertEach h (m\<lparr>m_TableCount := new_table_count\<rparr>)
                         [0 ..< m_TableCount m];
                 m2 \<leftarrow> MojoMultiMap_ReinsertRun h m1 [m_TableCount m ..< new_table_count];
                 Some (m2, kMojoStatus_Ok)
               }
               else Some (m, kMojoStatus_Ok)
           | None \<Rightarrow>
               if new_table_count < m_TableCount m
               then map_option (\<lambda>m'. (m', kMojoStatus_Ok))
                      (MojoMultiMap_ReinsertEach h (m\<lparr>m_TableCount := new_table_count\<rparr>)
                         [0 ..< m_TableCount m])
               else if new_table_count > m_TableCount m
               then do {
                 m1 \<leftarrow> MojoMultiMap_ReinsertEach h (m\<lparr>m_TableCount := new_table_count\<rparr>)
                         [0 ..< m_TableCount m];
                 m2 \<leftarrow> MojoMultiMap_ReinsertRun h m1 [m_TableCount m ..< new_table_count];
                 Some (m2, kMojoStatus_Ok)
               }
               else Some (m, kMojoStatus_Ok))
      | CallMM_InsertOld m old is \<Rightarrow>
          (case is of
             [] \<Rightarrow> Some (m, kMojoStatus_Ok)
           | i # rest \<Rightarrow>
               if i < length old
               then if fst (old ! i) \<noteq> None
                    then do {
                      (m1, _) \<leftarrow> MojoMultiMap_run h
                                   (CallMM_Insert m (fst (old ! i)) (snd (old ! i)));
                      MojoMultiMap_run h (CallMM_InsertOld m1 old rest)
                    }
                    else MojoMultiMap_run h (CallMM_InsertOld m old rest)
               else None))"

declare MojoMultiMap_run.simps [code]

definition MojoMultiMap_Insert ::
  "('k option \<Rightarrow> nat) \<Rightarrow> ('k, 'v) MojoMultiMap \<Rightarrow> 'k option \<Rightarrow> 'v option
     \<Rightarrow> (('k, 'v) MojoMultiMap \<times> MojoStatus) option" where
  "MojoMultiMap_Insert h m key val = MojoMultiMap_run h (CallMM_Insert m key val)"

definition MojoMultiMap_Grow ::
  "('k option \<Rightarrow> nat) \<Rightarrow> ('k, 'v) MojoMultiMap \<Rightarrow> ('k, 'v) MojoMultiMap option" where
  "MojoMultiMap_Grow h m = map_option fst (MojoMultiMap_run h (CallMM_Grow m))"

definition MojoMultiMap_Resize ::
  "('k option \<Rightarrow> nat) \<Rightarrow> ('k, 'v) MojoMultiMap \<Rightarrow> nat \<Rightarrow> nat \<Rightarrow> ('k, 'v) MojoMultiMap option" where
  "MojoMultiMap_Resize h m new_table_count new_capacity =
     map_option fst (MojoMultiMap_run h (CallMM_Resize m new_table_count new_capacity))"

text \<open>\<^verbatim>\<open>Reset\<close>: the loop that empties the hashed slots, and \<^verbatim>\<open>Resize\<close> to the least size.
  \<^verbatim>\<open>Reset\<close> does not test the status.\<close>

fun MojoMultiMap_ClearEach ::
  "('k, 'v) MojoMultiMap \<Rightarrow> nat list \<Rightarrow> ('k, 'v) MojoMultiMap option" where
  "MojoMultiMap_ClearEach m [] = Some m"
| "MojoMultiMap_ClearEach m (i # is) =
     (case SetKeyValueAt m i KeyValue_empty of
        None \<Rightarrow> None
      | Some m' \<Rightarrow> MojoMultiMap_ClearEach m' is)"

definition MojoMultiMap_Reset ::
  "('k option \<Rightarrow> nat) \<Rightarrow> ('k, 'v) MojoMultiMap \<Rightarrow> ('k, 'v) MojoMultiMap option" where
  "MojoMultiMap_Reset h m =
     do {
       m1 \<leftarrow> MojoMultiMap_ClearEach m [0 ..< m_TableCount m];
       MojoMultiMap_Resize h (m1\<lparr>m_ActiveCount := 0, m_ChangeCount := m_ChangeCount m1 + 1\<rparr>)
         (m_TableCountMin m1) (max (m_AllocCountMin m1) (m_TableCountMin m1))
     }"

definition MojoMultiMap_Shrink ::
  "('k option \<Rightarrow> nat) \<Rightarrow> ('k, 'v) MojoMultiMap \<Rightarrow> ('k, 'v) MojoMultiMap option" where
  "MojoMultiMap_Shrink h m =
     (if m_TableCount m > m_TableCountMin m
         \<and> int32_times (m_ActiveCount m) 100 < int32_times (m_TableCount m) (m_ShrinkThreshold m)
      then
        let new_table_count = max (m_TableCount m div 2) (m_TableCountMin m);
            new_capacity = max new_table_count (m_AllocCountMin m)
        in if \<not> m_DynamicAlloc m
           then MojoMultiMap_Resize h m new_table_count (m_AllocCount m)
           else MojoMultiMap_Resize h m new_table_count new_capacity
      else Some m)"

definition MojoMultiMap_AutoShrink ::
  "('k option \<Rightarrow> nat) \<Rightarrow> ('k, 'v) MojoMultiMap \<Rightarrow> ('k, 'v) MojoMultiMap option" where
  "MojoMultiMap_AutoShrink h m = (if m_AutoShrink m then MojoMultiMap_Shrink h m else Some m)"

text \<open>\<^verbatim>\<open>Remove( key )\<close> and \<^verbatim>\<open>Remove( key, value )\<close>.\<close>

definition MojoMultiMap_Remove ::
  "('k option \<Rightarrow> nat) \<Rightarrow> ('k, 'v) MojoMultiMap \<Rightarrow> 'k option
     \<Rightarrow> (('k, 'v) MojoMultiMap \<times> MojoStatus) option" where
  "MojoMultiMap_Remove h m key =
     (if m_Status m \<noteq> kMojoStatus_Ok then Some (m, m_Status m)
      else if key \<noteq> None
      then do {
        (m1, removed) \<leftarrow> MojoMultiMap_RemoveAll h m key;
        if removed
        then do {
          m2 \<leftarrow> MojoMultiMap_AutoShrink h (m1\<lparr>m_ChangeCount := m_ChangeCount m1 + 1\<rparr>);
          Some (m2, kMojoStatus_Ok)
        }
        else Some (m1, kMojoStatus_NotFound)
      }
      else Some (m, kMojoStatus_NotFound))"

definition MojoMultiMap_RemovePair ::
  "('k option \<Rightarrow> nat) \<Rightarrow> ('k, 'v) MojoMultiMap \<Rightarrow> 'k option \<Rightarrow> 'v option
     \<Rightarrow> (('k, 'v) MojoMultiMap \<times> MojoStatus) option" where
  "MojoMultiMap_RemovePair h m key val =
     (if m_Status m \<noteq> kMojoStatus_Ok then Some (m, m_Status m)
      else if key \<noteq> None
      then do {
        (m1, removed) \<leftarrow> MojoMultiMap_RemoveOne h m key val;
        if removed
        then do {
          m2 \<leftarrow> MojoMultiMap_AutoShrink h (m1\<lparr>m_ChangeCount := m_ChangeCount m1 + 1\<rparr>);
          Some (m2, kMojoStatus_Ok)
        }
        else Some (m1, kMojoStatus_NotFound)
      }
      else Some (m, kMojoStatus_NotFound))"

definition MojoMultiMap_Find ::
  "('k option \<Rightarrow> nat) \<Rightarrow> ('k, 'v) MojoMultiMap \<Rightarrow> 'k option \<Rightarrow> 'v option option" where
  "MojoMultiMap_Find h m key =
     (if m_Status m = kMojoStatus_Ok \<and> key \<noteq> None
      then do {
        index \<leftarrow> MojoMultiMap_FindEmptyOrMatching h m key;
        kv \<leftarrow> KeyValueAt m index;
        if fst kv \<noteq> None then Some (snd kv) else Some (m_NotFoundValue m)
      }
      else Some (m_NotFoundValue m))"

definition MojoMultiMap_Contains ::
  "('k option \<Rightarrow> nat) \<Rightarrow> ('k, 'v) MojoMultiMap \<Rightarrow> 'k option \<Rightarrow> bool option" where
  "MojoMultiMap_Contains h m key =
     (if m_Status m = kMojoStatus_Ok \<and> key \<noteq> None
      then do {
        index \<leftarrow> MojoMultiMap_FindEmptyOrMatching h m key;
        kv \<leftarrow> KeyValueAt m index;
        Some (fst kv \<noteq> None)
      }
      else Some False)"

definition MojoMultiMap_ContainsPair ::
  "('k option \<Rightarrow> nat) \<Rightarrow> ('k, 'v) MojoMultiMap \<Rightarrow> 'k option \<Rightarrow> 'v option \<Rightarrow> bool option" where
  "MojoMultiMap_ContainsPair h m key val =
     (if m_Status m = kMojoStatus_Ok \<and> key \<noteq> None
      then do {
        index \<leftarrow> MojoMultiMap_FindEmptyOrMatchingPair h m key val;
        kv \<leftarrow> KeyValueAt m index;
        Some (fst kv \<noteq> None)
      }
      else Some False)"

definition MojoMultiMap_GetCount :: "('k, 'v) MojoMultiMap \<Rightarrow> nat" where
  "MojoMultiMap_GetCount m = m_ActiveCount m"


definition MojoMultiMap_IsIndexValid :: "('k, 'v) MojoMultiMap \<Rightarrow> nat \<Rightarrow> bool" where
  "MojoMultiMap_IsIndexValid m index = (m_Status m = kMojoStatus_Ok \<and> index < m_TableCount m)"




text \<open>The cursor over the keys: \<^verbatim>\<open>IsFirstInRun\<close>, \<^verbatim>\<open>_GetNextIndex\<close>, \<^verbatim>\<open>_GetFirstIndex\<close>.
  The two loops of \<^verbatim>\<open>IsFirstInRun\<close> count down: from \<open>index - 1\<close> to \<open>0\<close>, then from
  \<open>m_TableCount - 1\<close> to \<open>index + 1\<close>.\<close>

fun MojoMultiMap_FirstLoop ::
  "('k, 'v) MojoMultiMap \<Rightarrow> 'k option \<Rightarrow> nat list \<Rightarrow> bool option option" where
  "MojoMultiMap_FirstLoop m key [] = Some None"
| "MojoMultiMap_FirstLoop m key (i # is) =
     (case KeyValueAt m i of
        None \<Rightarrow> None
      | Some kv \<Rightarrow>
          if fst kv = None then Some (Some True)
          else if fst kv = key then Some (Some False)
          else MojoMultiMap_FirstLoop m key is)"

definition MojoMultiMap_IsFirstInRun :: "('k, 'v) MojoMultiMap \<Rightarrow> nat \<Rightarrow> bool option" where
  "MojoMultiMap_IsFirstInRun m index =
     do {
       kv \<leftarrow> KeyValueAt m index;
       (case MojoMultiMap_FirstLoop m (fst kv) (rev [0 ..< index]) of
          None \<Rightarrow> None
        | Some (Some b) \<Rightarrow> Some b
        | Some None \<Rightarrow>
            (case MojoMultiMap_FirstLoop m (fst kv) (rev [index + 1 ..< m_TableCount m]) of
               None \<Rightarrow> None
             | Some (Some b) \<Rightarrow> Some b
             | Some None \<Rightarrow> Some True))
     }"

text \<open>The loop of \<^verbatim>\<open>_GetNextIndex\<close> over the indices \<open>is\<close>; \<^verbatim>\<open>_GetNextIndex( index )\<close> runs
  it from \<open>index + 1\<close>, and \<^verbatim>\<open>_GetFirstIndex\<close>, which is \<^verbatim>\<open>_GetNextIndex( -1 )\<close>, from \<open>0\<close>.\<close>

fun MojoMultiMap_NextLoop :: "('k, 'v) MojoMultiMap \<Rightarrow> nat list \<Rightarrow> nat option" where
  "MojoMultiMap_NextLoop m [] = Some (m_TableCount m)"
| "MojoMultiMap_NextLoop m (i # is) =
     (case KeyValueAt m i of
        None \<Rightarrow> None
      | Some kv \<Rightarrow>
          if fst kv \<noteq> None
          then (case MojoMultiMap_IsFirstInRun m i of
                  None \<Rightarrow> None
                | Some True \<Rightarrow> Some i
                | Some False \<Rightarrow> MojoMultiMap_NextLoop m is)
          else MojoMultiMap_NextLoop m is)"

definition MojoMultiMap_GetNextIndex :: "('k, 'v) MojoMultiMap \<Rightarrow> nat \<Rightarrow> nat option" where
  "MojoMultiMap_GetNextIndex m index = MojoMultiMap_NextLoop m [index + 1 ..< m_TableCount m]"

definition MojoMultiMap_GetFirstIndex :: "('k, 'v) MojoMultiMap \<Rightarrow> nat option" where
  "MojoMultiMap_GetFirstIndex m = MojoMultiMap_NextLoop m [0 ..< m_TableCount m]"

lemma MojoMultiMap_NextLoop_range:
  "MojoMultiMap_NextLoop m is = Some j \<Longrightarrow> j \<in> set is \<or> j = m_TableCount m"
proof (induction "is")
  case Nil
  then show ?case by simp
next
  case (Cons i "is")
  show ?case
  proof (cases "KeyValueAt m i")
    case None
    with Cons.prems show ?thesis by simp
  next
    case (Some kv)
    show ?thesis
    proof (cases "fst kv \<noteq> None \<and> MojoMultiMap_IsFirstInRun m i = Some True")
      case True
      with Cons.prems Some show ?thesis by simp
    next
      case False
      with Cons.prems Some have "MojoMultiMap_NextLoop m is = Some j"
        by (auto split: option.splits bool.splits if_splits)
      with Cons.IH show ?thesis by auto
    qed
  qed
qed

text \<open>\<^verbatim>\<open>Enumerate\<close>: the keys pushed into the collector, in order. \<open>limit\<close> is the optional
  set whose \<^verbatim>\<open>Contains\<close> filters the keys (\<open>None\<close> for \<^verbatim>\<open>NULL\<close>).\<close>

function MojoMultiMap_EnumerateFrom ::
  "('k, 'v) MojoMultiMap \<Rightarrow> ('k option \<Rightarrow> bool) option \<Rightarrow> nat \<Rightarrow> 'k option list option" where
  "MojoMultiMap_EnumerateFrom m limit i =
     (if MojoMultiMap_IsIndexValid m i
      then (case KeyValueAt m i of
              None \<Rightarrow> None
            | Some kv \<Rightarrow>
                (case MojoMultiMap_GetNextIndex m i of
                   None \<Rightarrow> None
                 | Some j \<Rightarrow>
                     map_option
                       (\<lambda>pushed. case limit of
                                    None \<Rightarrow> fst kv # pushed
                                  | Some contains \<Rightarrow>
                                      if contains (fst kv) then fst kv # pushed else pushed)
                       (MojoMultiMap_EnumerateFrom m limit j)))
      else Some [])"
  by pat_completeness auto
termination
proof (relation "measure (\<lambda>(m, limit, i). m_TableCount m - i)")
  show "wf (measure (\<lambda>(m :: ('k, 'v) MojoMultiMap, limit :: ('k option \<Rightarrow> bool) option, i).
              m_TableCount m - i))"
    by simp
next
  fix m :: "('k, 'v) MojoMultiMap" and limit :: "('k option \<Rightarrow> bool) option"
    and i j :: nat and kv :: "('k, 'v) KeyValue"
  assume valid: "MojoMultiMap_IsIndexValid m i"
    and nxt: "MojoMultiMap_GetNextIndex m i = Some j"
  from valid have lt: "i < m_TableCount m"
    by (simp add: MojoMultiMap_IsIndexValid_def)
  from nxt have "j \<in> set [i + 1 ..< m_TableCount m] \<or> j = m_TableCount m"
    unfolding MojoMultiMap_GetNextIndex_def by (rule MojoMultiMap_NextLoop_range)
  with lt have "i < j" by auto
  with lt show "((m, limit, j), (m, limit, i))
      \<in> measure (\<lambda>(m, limit, i). m_TableCount m - i)"
    by simp
qed

definition MojoMultiMap_Enumerate ::
  "('k, 'v) MojoMultiMap \<Rightarrow> ('k option \<Rightarrow> bool) option \<Rightarrow> 'k option list option" where
  "MojoMultiMap_Enumerate m limit =
     do { i \<leftarrow> MojoMultiMap_GetFirstIndex m; MojoMultiMap_EnumerateFrom m limit i }"

definition MojoMultiMap_Init :: "('k, 'v) MojoMultiMap \<Rightarrow> ('k, 'v) MojoMultiMap" where
  "MojoMultiMap_Init m =
     m\<lparr>m_Alloc := None, m_KeyValues := None, m_TableCount := 0, m_AllocCount := 0,
       m_ActiveCount := 0, m_ChangeCount := 0, m_Status := kMojoStatus_NotInitialized\<rparr>"

definition MojoMultiMap_new :: "('k, 'v) MojoMultiMap" where
  "MojoMultiMap_new =
     MojoMultiMap_Init
       \<lparr>m_Alloc = None, m_ActiveCount = 0, m_AllocCount = 0, m_TableCount = 0,
        m_ChangeCount = 0, m_Status = kMojoStatus_NotInitialized,
        m_AllocCountMin = 0, m_TableCountMin = 0, m_GrowThreshold = 0,
        m_ShrinkThreshold = 0, m_AutoGrow = False, m_AutoShrink = False,
        m_DynamicAlloc = False, m_KeyValues = None, m_NotFoundValue = None\<rparr>"

definition MojoMultiMap_Create ::
  "('k option \<Rightarrow> nat) \<Rightarrow> ('k, 'v) MojoMultiMap \<Rightarrow> 'v option \<Rightarrow> MojoConfig \<Rightarrow> MojoAlloc
     \<Rightarrow> ('k, 'v) KeyValue list option \<Rightarrow> nat \<Rightarrow> (('k, 'v) MojoMultiMap \<times> MojoStatus) option" where
  "MojoMultiMap_Create h m not_found_value config alloc fixed_array fixed_array_count =
     (if m_Status m \<noteq> kMojoStatus_NotInitialized
      then Some (m\<lparr>m_Status := kMojoStatus_DoubleInitialized\<rparr>, kMojoStatus_DoubleInitialized)
      else if cfg_AllocCountMin config \<le> 1 \<or> cfg_TableCountMin config \<le> 1
              \<or> int (cfg_GrowThreshold config) \<le> int32_times (cfg_ShrinkThreshold config) 2
      then Some (m\<lparr>m_Status := kMojoStatus_InvalidArguments\<rparr>, kMojoStatus_InvalidArguments)
      else
        let a = (if fixed_array \<noteq> None then None else Some alloc);
            m1 = m\<lparr>m_Status := kMojoStatus_Ok,
                   m_Alloc := a,
                   m_NotFoundValue := not_found_value,
                   m_KeyValues := fixed_array,
                   m_AllocCount := fixed_array_count,
                   m_ActiveCount := 0,
                   m_AllocCountMin := cfg_AllocCountMin config,
                   m_TableCountMin := cfg_TableCountMin config,
                   m_GrowThreshold := cfg_GrowThreshold config,
                   m_ShrinkThreshold := cfg_ShrinkThreshold config,
                   m_AutoGrow := cfg_AutoGrow config,
                   m_AutoShrink := cfg_AutoShrink config,
                   m_DynamicAlloc := (cfg_DynamicAlloc config \<and> a \<noteq> None)\<rparr>
        in do {
          m2 \<leftarrow> (if m_KeyValues m1 = None
                 then MojoMultiMap_Resize h m1 (m_TableCountMin m1)
                        (max (m_AllocCountMin m1) (m_TableCountMin m1))
                 else Some m1);
          let m3 = (if m_KeyValues m2 = None then m2\<lparr>m_Status := kMojoStatus_CouldNotAlloc\<rparr>
                    else m2)
          in Some (m3, m_Status m3)
        })"

subsection \<open>MojoMap\<close>

text \<open>Modelled from the spec: \<^verbatim>\<open>MojoMap.h\<close> is not among the sources. The specification
  describes the one-to-one map as identical to the set engine except that slots carry a
  value, that \<^verbatim>\<open>contains\<close>, \<^verbatim>\<open>insert\<close> and \<^verbatim>\<open>remove\<close> key on the key alone, that
  \<^verbatim>\<open>find\<close> returns the not-found value when the key is absent, that \<^verbatim>\<open>insert\<close> overwrites
  the value at an existing key, and that \<^verbatim>\<open>remove\<close> returns the previously associated
  value (or the not-found value). The definitions below are the set engine of the
  specification, over the slots and the fields of the multimap record, with the probe by
  key of the multimap; the change count increments on an observable mutation. The
  arithmetic is the exact arithmetic of the specification. Of a failing allocation the
  specification says: "Allocation failure during resize: cannot-allocate; the container
  remains usable with its previous buffer", and "no partial observable mutation": a
  \<^verbatim>\<open>Resize\<close> whose allocation fails leaves the table as it is and reports
  \<open>kMojoStatus_CouldNotAlloc\<close>, and an \<^verbatim>\<open>Insert\<close> whose growth failed returns that status
  and inserts nothing.\<close>

type_synonym ('k, 'v) MojoMap = "('k, 'v) MojoMultiMap"

definition MojoMap_Reinsert ::
  "('k option \<Rightarrow> nat) \<Rightarrow> ('k, 'v) MojoMap \<Rightarrow> nat \<Rightarrow> ('k, 'v) MojoMap option" where
  "MojoMap_Reinsert h m index =
     do {
       kv \<leftarrow> KeyValueAt m index;
       new_index \<leftarrow> MojoMultiMap_FindEmptyOrMatching h m (fst kv);
       if new_index \<noteq> index
       then do { m1 \<leftarrow> SetKeyValueAt m new_index kv; SetKeyValueAt m1 index KeyValue_empty }
       else Some m
     }"

fun MojoMap_ReinsertEach ::
  "('k option \<Rightarrow> nat) \<Rightarrow> ('k, 'v) MojoMap \<Rightarrow> nat list \<Rightarrow> ('k, 'v) MojoMap option" where
  "MojoMap_ReinsertEach h m [] = Some m"
| "MojoMap_ReinsertEach h m (i # is) =
     (case KeyValueAt m i of
        None \<Rightarrow> None
      | Some kv \<Rightarrow>
          if fst kv = None then MojoMap_ReinsertEach h m is
          else (case MojoMap_Reinsert h m i of
                  None \<Rightarrow> None
                | Some m' \<Rightarrow> MojoMap_ReinsertEach h m' is))"

fun MojoMap_ReinsertRun ::
  "('k option \<Rightarrow> nat) \<Rightarrow> ('k, 'v) MojoMap \<Rightarrow> nat list \<Rightarrow> (('k, 'v) MojoMap \<times> bool) option" where
  "MojoMap_ReinsertRun h m [] = Some (m, False)"
| "MojoMap_ReinsertRun h m (i # is) =
     (case KeyValueAt m i of
        None \<Rightarrow> None
      | Some kv \<Rightarrow>
          if fst kv = None then Some (m, True)
          else (case MojoMap_Reinsert h m i of
                  None \<Rightarrow> None
                | Some m' \<Rightarrow> MojoMap_ReinsertRun h m' is))"

datatype ('k, 'v) MojoMap_call =
    CallMap_Insert "('k, 'v) MojoMap" "'k option" "'v option"
  | CallMap_Grow "('k, 'v) MojoMap"
  | CallMap_Resize "('k, 'v) MojoMap" nat nat
  | CallMap_InsertOld "('k, 'v) MojoMap" "('k, 'v) KeyValue list" "nat list"

partial_function (option) MojoMap_run ::
  "('k option \<Rightarrow> nat) \<Rightarrow> ('k, 'v) MojoMap_call \<Rightarrow> (('k, 'v) MojoMap \<times> MojoStatus) option" where
  "MojoMap_run h c =
     (case c of
        CallMap_Insert m key val \<Rightarrow>
          if m_Status m \<noteq> kMojoStatus_Ok then Some (m, m_Status m)
          else if key = None then Some (m, kMojoStatus_InvalidArguments)
          else do {
            (m1, grown) \<leftarrow> (if m_AutoGrow m then MojoMap_run h (CallMap_Grow m)
                            else Some (m, kMojoStatus_Ok));
            if grown \<noteq> kMojoStatus_Ok then Some (m1, grown)
            else if m_ActiveCount m1 < m_TableCount m1
            then do {
              index \<leftarrow> MojoMultiMap_FindEmptyOrMatching h m1 key;
              kv \<leftarrow> KeyValueAt m1 index;
              if fst kv = None
              then do {
                m2 \<leftarrow> SetKeyValueAt m1 index (key, val);
                Some (m2\<lparr>m_ActiveCount := m_ActiveCount m2 + 1,
                          m_ChangeCount := m_ChangeCount m2 + 1\<rparr>, kMojoStatus_Ok)
              }
              else if snd kv = val then Some (m1, kMojoStatus_Ok)
              else do {
                m2 \<leftarrow> SetKeyValueAt m1 index (fst kv, val);
                Some (m2\<lparr>m_ChangeCount := m_ChangeCount m2 + 1\<rparr>, kMojoStatus_Ok)
              }
            }
            else Some (m1, kMojoStatus_CouldNotAlloc)
          }
      | CallMap_Grow m \<Rightarrow>
          if m_ActiveCount m * 100 \<ge> m_TableCount m * m_GrowThreshold m
          then
            let new_table_count = m_TableCount m * 2;
                new_capacity = max (m_AllocCount m) new_table_count
            in if \<not> m_DynamicAlloc m
               then MojoMap_run h
                      (CallMap_Resize m (min new_table_count (m_AllocCount m)) (m_AllocCount m))
               else MojoMap_run h (CallMap_Resize m new_table_count new_capacity)
          else Some (m, kMojoStatus_Ok)
      | CallMap_Resize m new_table_count new_capacity \<Rightarrow>
          (case m_Alloc m of
             Some a \<Rightarrow>
               if m_AllocCount m \<noteq> new_capacity
               then
                 let old_key_values = m_KeyValues m;
                     old_table_count = m_TableCount m;
                     m1 = m\<lparr>m_AllocCount := new_capacity, m_TableCount := new_table_count,
                            m_ActiveCount := 0\<rparr>;
                     (ok, a') = (if new_capacity \<noteq> 0 then Allocate a else (True, a))
                 in if \<not> ok then Some (m\<lparr>m_Alloc := Some a'\<rparr>, kMojoStatus_CouldNotAlloc)
                    else
                      let m2 = m1\<lparr>m_Alloc := Some a',
                                  m_KeyValues :=
                                    (if new_capacity \<noteq> 0
                                     then Some (replicate new_capacity KeyValue_empty)
                                     else None)\<rparr>
                      in (case old_key_values of
                            None \<Rightarrow> Some (m2, kMojoStatus_Ok)
                          | Some old \<Rightarrow>
                              if m_KeyValues m2 = None then Some (m2, kMojoStatus_Ok)
                              else MojoMap_run h
                                     (CallMap_InsertOld m2 old [0 ..< old_table_count]))
               else if new_table_count < m_TableCount m
               then map_option (\<lambda>m'. (m', kMojoStatus_Ok))
                      (MojoMap_ReinsertEach h (m\<lparr>m_TableCount := new_table_count\<rparr>)
                         [0 ..< m_TableCount m])
               else if new_table_count > m_TableCount m
               then do {
                 m1 \<leftarrow> MojoMap_ReinsertEach h (m\<lparr>m_TableCount := new_table_count\<rparr>)
                         [0 ..< m_TableCount m];
                 (m2, _) \<leftarrow> MojoMap_ReinsertRun h m1 [m_TableCount m ..< new_table_count];
                 Some (m2, kMojoStatus_Ok)
               }
               else Some (m, kMojoStatus_Ok)
           | None \<Rightarrow>
               if new_table_count < m_TableCount m
               then map_option (\<lambda>m'. (m', kMojoStatus_Ok))
                      (MojoMap_ReinsertEach h (m\<lparr>m_TableCount := new_table_count\<rparr>)
                         [0 ..< m_TableCount m])
               else if new_table_count > m_TableCount m
               then do {
                 m1 \<leftarrow> MojoMap_ReinsertEach h (m\<lparr>m_TableCount := new_table_count\<rparr>)
                         [0 ..< m_TableCount m];
                 (m2, _) \<leftarrow> MojoMap_ReinsertRun h m1 [m_TableCount m ..< new_table_count];
                 Some (m2, kMojoStatus_Ok)
               }
               else Some (m, kMojoStatus_Ok))
      | CallMap_InsertOld m old is \<Rightarrow>
          (case is of
             [] \<Rightarrow> Some (m, kMojoStatus_Ok)
           | i # rest \<Rightarrow>
               if i < length old
               then if fst (old ! i) \<noteq> None
                    then do {
                      (m1, _) \<leftarrow> MojoMap_run h
                                   (CallMap_Insert m (fst (old ! i)) (snd (old ! i)));
                      MojoMap_run h (CallMap_InsertOld m1 old rest)
                    }
                    else MojoMap_run h (CallMap_InsertOld m old rest)
               else None))"

declare MojoMap_run.simps [code]

definition MojoMap_Insert ::
  "('k option \<Rightarrow> nat) \<Rightarrow> ('k, 'v) MojoMap \<Rightarrow> 'k option \<Rightarrow> 'v option
     \<Rightarrow> (('k, 'v) MojoMap \<times> MojoStatus) option" where
  "MojoMap_Insert h m key val = MojoMap_run h (CallMap_Insert m key val)"

definition MojoMap_Resize ::
  "('k option \<Rightarrow> nat) \<Rightarrow> ('k, 'v) MojoMap \<Rightarrow> nat \<Rightarrow> nat \<Rightarrow> ('k, 'v) MojoMap option" where
  "MojoMap_Resize h m new_table_count new_capacity =
     map_option fst (MojoMap_run h (CallMap_Resize m new_table_count new_capacity))"

text \<open>\<^verbatim>\<open>reset\<close> "empties all slots and shrinks to minimum capacity".\<close>

definition MojoMap_Reset ::
  "('k option \<Rightarrow> nat) \<Rightarrow> ('k, 'v) MojoMap \<Rightarrow> ('k, 'v) MojoMap option" where
  "MojoMap_Reset h m =
     do {
       m1 \<leftarrow> MojoMultiMap_ClearEach m [0 ..< m_TableCount m];
       MojoMap_Resize h (m1\<lparr>m_ActiveCount := 0, m_ChangeCount := m_ChangeCount m1 + 1\<rparr>)
         (m_TableCountMin m1) (max (m_AllocCountMin m1) (m_TableCountMin m1))
     }"

definition MojoMap_Shrink ::
  "('k option \<Rightarrow> nat) \<Rightarrow> ('k, 'v) MojoMap \<Rightarrow> ('k, 'v) MojoMap option" where
  "MojoMap_Shrink h m =
     (if m_TableCount m > m_TableCountMin m
         \<and> m_ActiveCount m * 100 < m_TableCount m * m_ShrinkThreshold m
      then
        let new_table_count = max (m_TableCount m div 2) (m_TableCountMin m);
            new_capacity = max new_table_count (m_AllocCountMin m)
        in if \<not> m_DynamicAlloc m
           then MojoMap_Resize h m new_table_count (m_AllocCount m)
           else MojoMap_Resize h m new_table_count new_capacity
      else Some m)"

definition MojoMap_AutoShrink ::
  "('k option \<Rightarrow> nat) \<Rightarrow> ('k, 'v) MojoMap \<Rightarrow> ('k, 'v) MojoMap option" where
  "MojoMap_AutoShrink h m = (if m_AutoShrink m then MojoMap_Shrink h m else Some m)"

text \<open>\<^verbatim>\<open>Remove( key )\<close> of the map returns the table and the value that was associated with
  the key, or the not-found value.\<close>

definition MojoMap_Remove ::
  "('k option \<Rightarrow> nat) \<Rightarrow> ('k, 'v) MojoMap \<Rightarrow> 'k option
     \<Rightarrow> (('k, 'v) MojoMap \<times> 'v option) option" where
  "MojoMap_Remove h m key =
     (if m_Status m \<noteq> kMojoStatus_Ok \<or> key = None then Some (m, m_NotFoundValue m)
      else do {
        index \<leftarrow> MojoMultiMap_FindEmptyOrMatching h m key;
        kv \<leftarrow> KeyValueAt m index;
        if fst kv = None then Some (m, m_NotFoundValue m)
        else do {
          m1 \<leftarrow> SetKeyValueAt m index KeyValue_empty;
          (m2, stopped) \<leftarrow>
            MojoMap_ReinsertRun h (m1\<lparr>m_ActiveCount := m_ActiveCount m1 - 1\<rparr>)
              [index + 1 ..< m_TableCount m1];
          (m3, _) \<leftarrow> (if stopped then Some (m2, True)
                       else MojoMap_ReinsertRun h m2 [0 ..< index]);
          m4 \<leftarrow> MojoMap_AutoShrink h (m3\<lparr>m_ChangeCount := m_ChangeCount m3 + 1\<rparr>);
          Some (m4, snd kv)
        }
      })"

definition MojoMap_Find ::
  "('k option \<Rightarrow> nat) \<Rightarrow> ('k, 'v) MojoMap \<Rightarrow> 'k option \<Rightarrow> 'v option option" where
  "MojoMap_Find h m key =
     (if m_Status m = kMojoStatus_Ok \<and> key \<noteq> None
      then do {
        index \<leftarrow> MojoMultiMap_FindEmptyOrMatching h m key;
        kv \<leftarrow> KeyValueAt m index;
        if fst kv \<noteq> None then Some (snd kv) else Some (m_NotFoundValue m)
      }
      else Some (m_NotFoundValue m))"

definition MojoMap_Contains ::
  "('k option \<Rightarrow> nat) \<Rightarrow> ('k, 'v) MojoMap \<Rightarrow> 'k option \<Rightarrow> bool option" where
  "MojoMap_Contains h m key =
     (if m_Status m = kMojoStatus_Ok \<and> key \<noteq> None
      then do {
        index \<leftarrow> MojoMultiMap_FindEmptyOrMatching h m key;
        kv \<leftarrow> KeyValueAt m index;
        Some (fst kv \<noteq> None)
      }
      else Some False)"


definition MojoMap_GetCount :: "('k, 'v) MojoMap \<Rightarrow> nat" where
  "MojoMap_GetCount m = m_ActiveCount m"

definition MojoMap_Create ::
  "('k option \<Rightarrow> nat) \<Rightarrow> ('k, 'v) MojoMap \<Rightarrow> 'v option \<Rightarrow> MojoConfig \<Rightarrow> MojoAlloc
     \<Rightarrow> ('k, 'v) KeyValue list option \<Rightarrow> nat \<Rightarrow> (('k, 'v) MojoMap \<times> MojoStatus) option" where
  "MojoMap_Create h m not_found_value config alloc fixed_array fixed_array_count =
     (if m_Status m \<noteq> kMojoStatus_NotInitialized
      then Some (m\<lparr>m_Status := kMojoStatus_DoubleInitialized\<rparr>, kMojoStatus_DoubleInitialized)
      else if cfg_AllocCountMin config \<le> 1 \<or> cfg_TableCountMin config \<le> 1
              \<or> cfg_GrowThreshold config \<le> cfg_ShrinkThreshold config * 2
      then Some (m\<lparr>m_Status := kMojoStatus_InvalidArguments\<rparr>, kMojoStatus_InvalidArguments)
      else
        let a = (if fixed_array \<noteq> None then None else Some alloc);
            m1 = m\<lparr>m_Status := kMojoStatus_Ok,
                   m_Alloc := a,
                   m_NotFoundValue := not_found_value,
                   m_KeyValues := fixed_array,
                   m_AllocCount := fixed_array_count,
                   m_ActiveCount := 0,
                   m_AllocCountMin := cfg_AllocCountMin config,
                   m_TableCountMin := cfg_TableCountMin config,
                   m_GrowThreshold := cfg_GrowThreshold config,
                   m_ShrinkThreshold := cfg_ShrinkThreshold config,
                   m_AutoGrow := cfg_AutoGrow config,
                   m_AutoShrink := cfg_AutoShrink config,
                   m_DynamicAlloc := (cfg_DynamicAlloc config \<and> a \<noteq> None)\<rparr>
        in do {
          m2 \<leftarrow> (if m_KeyValues m1 = None
                 then MojoMap_Resize h m1 (m_TableCountMin m1)
                        (max (m_AllocCountMin m1) (m_TableCountMin m1))
                 else Some m1);
          let m3 = (if m_KeyValues m2 = None then m2\<lparr>m_Status := kMojoStatus_CouldNotAlloc\<rparr>
                    else m2)
          in Some (m3, m_Status m3)
        })"

subsection \<open>MojoRelation\<close>

record 'k MojoRelation =
  m_ChildToParent :: "('k, 'k) MojoMap"
  m_ParentToChild :: "('k, 'k) MojoMultiMap"

definition MojoRelation_GetStatus :: "'k MojoRelation \<Rightarrow> MojoStatus" where
  "MojoRelation_GetStatus r =
     (if m_Status (m_ParentToChild r) \<noteq> kMojoStatus_Ok then m_Status (m_ParentToChild r)
      else m_Status (m_ChildToParent r))"

text \<open>\<^verbatim>\<open>Create\<close>. The caller's array of \<open>fixed_array_count\<close> slots is split: the multimap is
  given the first \<open>fixed_array_count / 2\<close> slots and the map the rest. Each table holds its
  part as a list of its own, so that an access past the part is an access outside the
  array. Without an array (\<^verbatim>\<open>NULL\<close>) and with a count of 2 or more, \<^verbatim>\<open>fixed_array += count\<close>
  hands the map a pointer that is not null and points to no array: the empty list. Both
  tables are created with the same allocator, the multimap first: the map's \<^verbatim>\<open>Create\<close>
  meets the outcomes that the multimap's left.\<close>

definition MojoRelation_Create ::
  "('k option \<Rightarrow> nat) \<Rightarrow> 'k MojoRelation \<Rightarrow> 'k option \<Rightarrow> MojoConfig \<Rightarrow> MojoAlloc
     \<Rightarrow> ('k, 'k) KeyValue list option \<Rightarrow> nat \<Rightarrow> ('k MojoRelation \<times> MojoStatus) option" where
  "MojoRelation_Create h r not_found_value config alloc fixed_array fixed_array_count =
     (let count = fixed_array_count div 2 in
      do {
        (pc, _) \<leftarrow> MojoMultiMap_Create h (m_ParentToChild r) not_found_value config alloc
                     (map_option (take count) fixed_array) count;
        let rest_array = (if count \<noteq> 0
                          then Some (case fixed_array of None \<Rightarrow> [] | Some xs \<Rightarrow> drop count xs)
                          else fixed_array);
            rest_count = (if count \<noteq> 0 then fixed_array_count - count else count);
            rest_alloc = (case m_Alloc pc of Some a \<Rightarrow> a | None \<Rightarrow> alloc)
        in do {
          (cp, _) \<leftarrow> MojoMap_Create h (m_ChildToParent r) not_found_value config rest_alloc
                       (map_option (take rest_count) rest_array) rest_count;
          let r' = r\<lparr>m_ParentToChild := pc, m_ChildToParent := cp\<rparr>
          in Some (r', MojoRelation_GetStatus r')
        }
      })"

text \<open>\<^verbatim>\<open>Reset\<close> of the relation resets the multimap, then the map.\<close>

definition MojoRelation_Reset ::
  "('k option \<Rightarrow> nat) \<Rightarrow> 'k MojoRelation \<Rightarrow> 'k MojoRelation option" where
  "MojoRelation_Reset h r =
     do {
       pc \<leftarrow> MojoMultiMap_Reset h (m_ParentToChild r);
       cp \<leftarrow> MojoMap_Reset h (m_ChildToParent r);
       Some (r\<lparr>m_ParentToChild := pc, m_ChildToParent := cp\<rparr>)
     }"

definition MojoRelation_new :: "'k MojoRelation" where
  "MojoRelation_new = \<lparr>m_ChildToParent = MojoMultiMap_new, m_ParentToChild = MojoMultiMap_new\<rparr>"

definition MojoRelation_RemoveChild ::
  "('k option \<Rightarrow> nat) \<Rightarrow> 'k MojoRelation \<Rightarrow> 'k option \<Rightarrow> ('k MojoRelation \<times> MojoStatus) option" where
  "MojoRelation_RemoveChild h r child =
     (if child \<noteq> None
      then do {
        (cp, old_parent) \<leftarrow> MojoMap_Remove h (m_ChildToParent r) child;
        if old_parent \<noteq> None
        then do {
          (pc, status) \<leftarrow> MojoMultiMap_RemovePair h (m_ParentToChild r) old_parent child;
          Some (r\<lparr>m_ChildToParent := cp, m_ParentToChild := pc\<rparr>, status)
        }
        else Some (r\<lparr>m_ChildToParent := cp\<rparr>, kMojoStatus_NotFound)
      }
      else Some (r, kMojoStatus_NotFound))"

definition MojoRelation_InsertChildParent ::
  "('k option \<Rightarrow> nat) \<Rightarrow> 'k MojoRelation \<Rightarrow> 'k option \<Rightarrow> 'k option
     \<Rightarrow> ('k MojoRelation \<times> MojoStatus) option" where
  "MojoRelation_InsertChildParent h r child parent =
     (if parent = None then MojoRelation_RemoveChild h r child
      else if child = None then Some (r, kMojoStatus_InvalidArguments)
      else do {
        (r1, _) \<leftarrow> MojoRelation_RemoveChild h r child;
        (cp, status) \<leftarrow> MojoMap_Insert h (m_ChildToParent r1) child parent;
        if status = kMojoStatus_Ok
        then do {
          (pc, status') \<leftarrow> MojoMultiMap_Insert h (m_ParentToChild r1) parent child;
          Some (r1\<lparr>m_ChildToParent := cp, m_ParentToChild := pc\<rparr>, status')
        }
        else Some (r1\<lparr>m_ChildToParent := cp\<rparr>, status)
      })"




definition MojoRelation_Contains ::
  "('k option \<Rightarrow> nat) \<Rightarrow> 'k MojoRelation \<Rightarrow> 'k option \<Rightarrow> bool option" where
  "MojoRelation_Contains h r child = MojoMap_Contains h (m_ChildToParent r) child"

definition MojoRelation_ContainsParent ::
  "('k option \<Rightarrow> nat) \<Rightarrow> 'k MojoRelation \<Rightarrow> 'k option \<Rightarrow> bool option" where
  "MojoRelation_ContainsParent h r parent = MojoMultiMap_Contains h (m_ParentToChild r) parent"

definition MojoRelation_FindParent ::
  "('k option \<Rightarrow> nat) \<Rightarrow> 'k MojoRelation \<Rightarrow> 'k option \<Rightarrow> 'k option option" where
  "MojoRelation_FindParent h r child = MojoMap_Find h (m_ChildToParent r) child"

definition MojoRelation_GetCount :: "'k MojoRelation \<Rightarrow> nat" where
  "MojoRelation_GetCount r = MojoMap_GetCount (m_ChildToParent r)"


subsection \<open>Predicates used to state the properties\<close>

text \<open>An example key type: natural numbers that are their own hash.\<close>

definition nat_hash :: "nat option \<Rightarrow> nat" where
  "nat_hash k = (case k of None \<Rightarrow> 0 | Some n \<Rightarrow> n)"

text \<open>The test of the loops of \<^verbatim>\<open>MojoSet::FindEmptyOrMatching\<close> on slot \<open>i\<close>.\<close>

definition MojoSet_slot_free_or :: "'k MojoSet \<Rightarrow> 'k option \<Rightarrow> nat \<Rightarrow> bool" where
  "MojoSet_slot_free_or s key i = (KeyAt s i = Some None \<or> KeyAt s i = Some key)"

text \<open>The table invariant of the set: the buffer has \<open>m_AllocCount\<close> slots, the hashed part
  is within it, and \<open>m_ActiveCount\<close> counts the occupied slots of the hashed part.\<close>

definition MojoSet_occupied :: "'k MojoSet \<Rightarrow> nat" where
  "MojoSet_occupied s =
     (case m_Keys s of
        None \<Rightarrow> 0
      | Some ks \<Rightarrow> length (filter (\<lambda>k. k \<noteq> None) (take (m_TableCount s) ks)))"

definition MojoSet_table_inv :: "'k MojoSet \<Rightarrow> bool" where
  "MojoSet_table_inv s =
     (case m_Keys s of
        None \<Rightarrow> False
      | Some ks \<Rightarrow> length ks = m_AllocCount s \<and> m_TableCount s \<le> m_AllocCount s
                   \<and> m_ActiveCount s = MojoSet_occupied s)"

text \<open>Example tables. \<open>MojoSet_cfg_4_8\<close> is the configuration of the first scenario of the
  specification: at least 8 slots allocated, at least 4 hashed, grow at 80 percent, shrink
  below 30 percent. \<open>MojoSet_example\<close> is the set created with it after \<^verbatim>\<open>Insert\<close> of the
  keys 1 and 5.\<close>

definition MojoSet_cfg_4_8 :: MojoConfig where
  "MojoSet_cfg_4_8 =
     \<lparr>cfg_AllocCountMin = 8, cfg_TableCountMin = 4, cfg_GrowThreshold = 80,
      cfg_ShrinkThreshold = 30, cfg_AutoGrow = True, cfg_AutoShrink = True,
      cfg_DynamicAlloc = True\<rparr>"

definition MojoSet_example :: "nat MojoSet" where
  "MojoSet_example =
     \<lparr>m_Alloc = Some [], m_ActiveCount = 2, m_AllocCount = 8, m_TableCount = 4,
      m_ChangeCount = 2, m_Status = kMojoStatus_Ok, m_AllocCountMin = 8,
      m_TableCountMin = 4, m_GrowThreshold = 80, m_ShrinkThreshold = 30,
      m_AutoGrow = True, m_AutoShrink = True, m_DynamicAlloc = True,
      m_Keys = Some [None, Some 1, Some 5, None, None, None, None, None]\<rparr>"


definition MojoSet_cfg_2_2 :: MojoConfig where
  "MojoSet_cfg_2_2 =
     \<lparr>cfg_AllocCountMin = 2, cfg_TableCountMin = 2, cfg_GrowThreshold = 80,
      cfg_ShrinkThreshold = 30, cfg_AutoGrow = True, cfg_AutoShrink = True,
      cfg_DynamicAlloc = True\<rparr>"

text \<open>A configuration without dynamic allocation: the table may grow from 3 to the 4
  allocated slots and no further.\<close>

definition MojoSet_cfg_3_4_fixed :: MojoConfig where
  "MojoSet_cfg_3_4_fixed =
     \<lparr>cfg_AllocCountMin = 4, cfg_TableCountMin = 3, cfg_GrowThreshold = 60,
      cfg_ShrinkThreshold = 29, cfg_AutoGrow = True, cfg_AutoShrink = True,
      cfg_DynamicAlloc = False\<rparr>"


text \<open>The slots of the hashed part that hold a given key, in ascending order; the slots
  \<open>a, a + 1, \<dots>\<close> of a wrap-around run of length \<open>len\<close> in a table of \<open>n\<close> slots; and
  the literal reading of "the slots holding the key form one contiguous wrap-around run".\<close>

definition MojoMultiMap_slots_of :: "('k, 'v) MojoMultiMap \<Rightarrow> 'k option \<Rightarrow> nat list" where
  "MojoMultiMap_slots_of m key =
     filter (\<lambda>i. map_option fst (KeyValueAt m i) = Some key) [0 ..< m_TableCount m]"

definition cyclic_run :: "nat \<Rightarrow> nat \<Rightarrow> nat \<Rightarrow> nat list" where
  "cyclic_run n a len = map (\<lambda>t. (a + t) mod n) [0 ..< len]"

definition MojoMultiMap_key_contiguous :: "('k, 'v) MojoMultiMap \<Rightarrow> 'k option \<Rightarrow> bool" where
  "MojoMultiMap_key_contiguous m key =
     list_ex (\<lambda>a. list_ex (\<lambda>len. set (cyclic_run (m_TableCount m) a len)
                                   = set (MojoMultiMap_slots_of m key))
                    [0 ..< Suc (m_TableCount m)])
       [0 ..< m_TableCount m]"

text \<open>The table that a call of \<open>MojoMap_run\<close> starts from.\<close>

fun MojoMap_call_table :: "('k, 'v) MojoMap_call \<Rightarrow> ('k, 'v) MojoMap" where
  "MojoMap_call_table (CallMap_Insert m key val) = m"
| "MojoMap_call_table (CallMap_Grow m) = m"
| "MojoMap_call_table (CallMap_Resize m a b) = m"
| "MojoMap_call_table (CallMap_InsertOld m old is) = m"

text \<open>Two relations. \<open>MojoRelation_example\<close> is the relation created with \<open>MojoSet_cfg_4_8\<close>
  after \<^verbatim>\<open>InsertChildParent( 1, 11 )\<close>. \<open>MojoRelation_fixed_example\<close> is a relation on a
  caller's array of 5 empty slots, of which \<^verbatim>\<open>Create\<close> gives 2 to the parent-to-child table
  and 3 to the child-to-parent table: created with \<open>MojoSet_cfg_2_2_half\<close> (at least 2
  slots, grow at 50 percent, shrink below 20 percent), after \<^verbatim>\<open>Reset\<close>,
  \<^verbatim>\<open>InsertChildParent( 1, 11 )\<close> and \<^verbatim>\<open>InsertChildParent( 2, 12 )\<close>. Its parent-to-child
  table is full and cannot grow; its child-to-parent table has grown to 3 slots.\<close>

definition MojoRelation_example :: "nat MojoRelation" where
  "MojoRelation_example =
     \<lparr>m_ChildToParent =
        \<lparr>m_Alloc = Some [], m_ActiveCount = 1, m_AllocCount = 8, m_TableCount = 4,
         m_ChangeCount = 1, m_Status = kMojoStatus_Ok, m_AllocCountMin = 8,
         m_TableCountMin = 4, m_GrowThreshold = 80, m_ShrinkThreshold = 30,
         m_AutoGrow = True, m_AutoShrink = True, m_DynamicAlloc = True,
         m_KeyValues = Some [(None, None), (Some 1, Some 11), (None, None), (None, None),
                             (None, None), (None, None), (None, None), (None, None)],
         m_NotFoundValue = None\<rparr>,
      m_ParentToChild =
        \<lparr>m_Alloc = Some [], m_ActiveCount = 1, m_AllocCount = 8, m_TableCount = 4,
         m_ChangeCount = 1, m_Status = kMojoStatus_Ok, m_AllocCountMin = 8,
         m_TableCountMin = 4, m_GrowThreshold = 80, m_ShrinkThreshold = 30,
         m_AutoGrow = True, m_AutoShrink = True, m_DynamicAlloc = True,
         m_KeyValues = Some [(None, None), (None, None), (None, None), (Some 11, Some 1),
                             (None, None), (None, None), (None, None), (None, None)],
         m_NotFoundValue = None\<rparr>\<rparr>"

definition MojoSet_cfg_2_2_half :: MojoConfig where
  "MojoSet_cfg_2_2_half =
     \<lparr>cfg_AllocCountMin = 2, cfg_TableCountMin = 2, cfg_GrowThreshold = 50,
      cfg_ShrinkThreshold = 20, cfg_AutoGrow = True, cfg_AutoShrink = True,
      cfg_DynamicAlloc = False\<rparr>"

definition MojoRelation_fixed_example :: "nat MojoRelation" where
  "MojoRelation_fixed_example =
     \<lparr>m_ChildToParent =
        \<lparr>m_Alloc = None, m_ActiveCount = 2, m_AllocCount = 3, m_TableCount = 3,
         m_ChangeCount = 3, m_Status = kMojoStatus_Ok, m_AllocCountMin = 2,
         m_TableCountMin = 2, m_GrowThreshold = 50, m_ShrinkThreshold = 20,
         m_AutoGrow = True, m_AutoShrink = True, m_DynamicAlloc = False,
         m_KeyValues = Some [(None, None), (Some 1, Some 11), (Some 2, Some 12)],
         m_NotFoundValue = None\<rparr>,
      m_ParentToChild =
        \<lparr>m_Alloc = None, m_ActiveCount = 2, m_AllocCount = 2, m_TableCount = 2,
         m_ChangeCount = 3, m_Status = kMojoStatus_Ok, m_AllocCountMin = 2,
         m_TableCountMin = 2, m_GrowThreshold = 50, m_ShrinkThreshold = 20,
         m_AutoGrow = True, m_AutoShrink = True, m_DynamicAlloc = False,
         m_KeyValues = Some [(Some 12, Some 2), (Some 11, Some 1)],
         m_NotFoundValue = None\<rparr>\<rparr>"

text \<open>The number of steps that a probe takes from slot \<open>a\<close> to slot \<open>b\<close> in a table of
  \<open>n\<close> slots, wrapping at the end.\<close>

definition cyclic_dist :: "nat \<Rightarrow> nat \<Rightarrow> nat \<Rightarrow> nat" where
  "cyclic_dist n a b = (b + n - a) mod n"

text \<open>The reading of the cluster invariant that the probes rely on. A slot is occupied when
  its key is not null. \<open>MojoMultiMap_probed_before\<close> lists the slots that
  \<^verbatim>\<open>FindEmptyOrMatching\<close> passes, from the hash slot of the key stored in slot \<open>i\<close>, before it
  reaches slot \<open>i\<close>. \<open>MojoMultiMap_probe_inv\<close>: the table has a buffer for its hashed slots,
  and every stored pair is reached from the hash slot of its key through occupied slots
  only, so that all slots holding one key lie in the run of occupied slots that contains
  the hash slot of the key. \<open>MojoMultiMap_has_empty\<close>: some hashed slot is empty.\<close>

definition MojoMultiMap_occupied :: "('k, 'v) MojoMultiMap \<Rightarrow> nat \<Rightarrow> bool" where
  "MojoMultiMap_occupied m i =
     (case KeyValueAt m i of None \<Rightarrow> False | Some kv \<Rightarrow> fst kv \<noteq> None)"

definition MojoMultiMap_probed_before ::
  "('k option \<Rightarrow> nat) \<Rightarrow> ('k, 'v) MojoMultiMap \<Rightarrow> nat \<Rightarrow> nat list" where
  "MojoMultiMap_probed_before h m i =
     (case KeyValueAt m i of
        None \<Rightarrow> []
      | Some kv \<Rightarrow>
          let start_index = h (fst kv) mod m_TableCount m
          in cyclic_run (m_TableCount m) start_index
               (cyclic_dist (m_TableCount m) start_index i))"

definition MojoMultiMap_probe_inv ::
  "('k option \<Rightarrow> nat) \<Rightarrow> ('k, 'v) MojoMultiMap \<Rightarrow> bool" where
  "MojoMultiMap_probe_inv h m \<longleftrightarrow>
     0 < m_TableCount m
     \<and> (case m_KeyValues m of None \<Rightarrow> False | Some kvs \<Rightarrow> m_TableCount m \<le> length kvs)
     \<and> list_all (\<lambda>i. MojoMultiMap_occupied m i
                       \<longrightarrow> list_all (MojoMultiMap_occupied m) (MojoMultiMap_probed_before h m i))
         [0 ..< m_TableCount m]"

definition MojoMultiMap_has_empty :: "('k, 'v) MojoMultiMap \<Rightarrow> bool" where
  "MojoMultiMap_has_empty m = list_ex (\<lambda>i. \<not> MojoMultiMap_occupied m i) [0 ..< m_TableCount m]"

text \<open>The invariant of the loops of \<^verbatim>\<open>FixUp\<close>, over the slots \<open>kvs\<close> of a table of \<open>n\<close>
  hashed slots. Slot \<open>z\<close> is the empty slot at which the \<^verbatim>\<open>while\<close> loop of the removal
  stopped, and \<open>c\<close> is what is left of \<^verbatim>\<open>count\<close>: the slots still to be visited are the
  \<open>c\<close> slots before \<open>z\<close> (with \<open>z\<close> itself). No stored pair is probed across \<open>z\<close>, and every
  pair outside the slots still to be visited is reached through occupied slots.\<close>

definition MojoMultiMap_fixup_inv ::
  "('k option \<Rightarrow> nat) \<Rightarrow> nat \<Rightarrow> nat \<Rightarrow> ('k, 'v) KeyValue list \<Rightarrow> nat \<Rightarrow> bool" where
  "MojoMultiMap_fixup_inv h n z kvs c \<longleftrightarrow>
     z < n \<and> fst (kvs ! z) = None
     \<and> (\<forall>p < n. fst (kvs ! p) \<noteq> None \<longrightarrow>
            cyclic_dist n p z \<le> cyclic_dist n (h (fst (kvs ! p)) mod n) z)
     \<and> (\<forall>p < n. fst (kvs ! p) \<noteq> None \<and> c \<le> cyclic_dist n p z \<longrightarrow>
            (\<forall>q < n. cyclic_dist n p z < cyclic_dist n q z
                      \<and> cyclic_dist n q z \<le> cyclic_dist n (h (fst (kvs ! p)) mod n) z
                   \<longrightarrow> fst (kvs ! q) \<noteq> None))"

text \<open>A configuration with 8 hashed slots, and the multimap created with \<open>MojoSet_cfg_4_8\<close>
  after \<^verbatim>\<open>Insert\<close> of the pairs (1, 10), (2, 20) and (1, 11).\<close>

definition MojoSet_cfg_8_8 :: MojoConfig where
  "MojoSet_cfg_8_8 =
     \<lparr>cfg_AllocCountMin = 8, cfg_TableCountMin = 8, cfg_GrowThreshold = 80,
      cfg_ShrinkThreshold = 30, cfg_AutoGrow = True, cfg_AutoShrink = True,
      cfg_DynamicAlloc = True\<rparr>"

definition MojoMultiMap_example :: "(nat, nat) MojoMultiMap" where
  "MojoMultiMap_example =
     \<lparr>m_Alloc = Some [], m_ActiveCount = 3, m_AllocCount = 8, m_TableCount = 4,
      m_ChangeCount = 3, m_Status = kMojoStatus_Ok, m_AllocCountMin = 8,
      m_TableCountMin = 4, m_GrowThreshold = 80, m_ShrinkThreshold = 30,
      m_AutoGrow = True, m_AutoShrink = True, m_DynamicAlloc = True,
      m_KeyValues = Some [(None, None), (Some 1, Some 10), (Some 2, Some 20), (Some 1, Some 11),
                          (None, None), (None, None), (None, None), (None, None)],
      m_NotFoundValue = None\<rparr>"

section \<open>Properties\<close>

subsection \<open>Probing in the set\<close>

lemma find_Some_props: "List.find P xs = Some x \<Longrightarrow> P x \<and> x \<in> set xs"
  by (induction xs) (auto split: if_splits)

lemma find_over_append:
  "List.find P (xs @ ys) = (case List.find P xs of None \<Rightarrow> List.find P ys | Some x \<Rightarrow> Some x)"
  by (induction xs) auto

lemma MojoSet_FindLoop_find:
  assumes "m_Keys s = Some ks" "\<forall>i\<in>set is. i < length ks"
  shows "MojoSet_FindLoop s key is = Some (List.find (MojoSet_slot_free_or s key) is)"
  using assms(2)
proof (induction "is")
  case Nil
  then show ?case by simp
next
  case (Cons i "is")
  then show ?case using assms(1)
    by (auto simp: KeyAt_def MojoSet_slot_free_or_def)
qed

lemma MojoSet_table_invD:
  assumes "MojoSet_table_inv s"
  obtains ks where "m_Keys s = Some ks" "length ks = m_AllocCount s"
    "m_TableCount s \<le> m_AllocCount s"
    "m_ActiveCount s = length (filter (\<lambda>k. k \<noteq> None) (take (m_TableCount s) ks))"
proof (cases "m_Keys s")
  case None
  with assms show ?thesis by (simp add: MojoSet_table_inv_def)
next
  case (Some ks)
  with assms that[of ks] show ?thesis
    by (simp add: MojoSet_table_inv_def MojoSet_occupied_def)
qed

lemma MojoSet_free_slot_exists:
  assumes "MojoSet_table_inv s" "m_ActiveCount s < m_TableCount s"
  shows "\<exists>j < m_TableCount s. KeyAt s j = Some None"
proof -
  from assms(1) obtain ks where ks: "m_Keys s = Some ks" "length ks = m_AllocCount s"
    "m_TableCount s \<le> m_AllocCount s"
    "m_ActiveCount s = length (filter (\<lambda>k. k \<noteq> None) (take (m_TableCount s) ks))"
    by (rule MojoSet_table_invD)
  let ?xs = "take (m_TableCount s) ks"
  have len: "length ?xs = m_TableCount s" using ks(2,3) by simp
  have "length (filter (\<lambda>k. k \<noteq> None) ?xs) < length ?xs"
    using assms(2) ks(4) len by simp
  then have "\<not> (\<forall>x\<in>set ?xs. x \<noteq> None)"
    using filter_True[of ?xs "\<lambda>k. k \<noteq> None"] by force
  then obtain x where "x \<in> set ?xs" "x = None" by blast
  then obtain j where "j < length ?xs" "?xs ! j = None"
    unfolding in_set_conv_nth by blast
  then have "j < m_TableCount s" "ks ! j = None" using len by simp_all
  moreover have "j < length ks" using calculation(1) ks(2,3) by simp
  ultimately show ?thesis using ks(1) by (auto simp: KeyAt_def)
qed

text \<open>
  Claim C7. In a set whose table invariant holds and whose \<open>m_ActiveCount\<close> is below
  \<open>m_TableCount\<close>, \<^verbatim>\<open>FindEmptyOrMatching\<close> of a non-null key returns an index below
  \<open>m_TableCount\<close> whose slot is empty or holds the key. The index is the first such slot
  in the order of the two loops, which start at \<open>hash mod m_TableCount\<close>, run to the end
  of the table and then from slot \<open>0\<close> up to the start; so one of the loops returns it and
  the trailing \<^verbatim>\<open>return 0\<close> is not reached.
\<close>

theorem MojoSet_FindEmptyOrMatching_finds:
  assumes inv: "MojoSet_table_inv s"
    and room: "m_ActiveCount s < m_TableCount s"
    and key: "key \<noteq> None"
  shows "\<exists>i. MojoSet_FindEmptyOrMatching h s key = Some i
           \<and> i < m_TableCount s
           \<and> (KeyAt s i = Some None \<or> KeyAt s i = Some key)
           \<and> List.find (MojoSet_slot_free_or s key)
                ([h key mod m_TableCount s ..< m_TableCount s]
                 @ [0 ..< h key mod m_TableCount s])
               = Some i"
proof -
  from inv obtain ks where ks: "m_Keys s = Some ks" "length ks = m_AllocCount s"
    "m_TableCount s \<le> m_AllocCount s"
    by (rule MojoSet_table_invD)
  let ?n = "m_TableCount s"
  let ?st = "h key mod ?n"
  let ?P = "MojoSet_slot_free_or s key"
  have pos: "0 < ?n" using room by simp
  have st: "?st < ?n" using pos by simp
  from MojoSet_free_slot_exists[OF inv room]
  obtain j where j: "j < ?n" "KeyAt s j = Some None" by blast
  have Pj: "?P j" using j by (simp add: MojoSet_slot_free_or_def)
  have jin: "j \<in> set ([?st ..< ?n] @ [0 ..< ?st])" using j st by auto
  have "List.find ?P ([?st ..< ?n] @ [0 ..< ?st]) \<noteq> None"
    unfolding find_None_iff using Pj jin by blast
  then obtain i where i: "List.find ?P ([?st ..< ?n] @ [0 ..< ?st]) = Some i"
    by blast
  from find_Some_props[OF i] have Pi: "?P i" and iin: "i \<in> set ([?st ..< ?n] @ [0 ..< ?st])"
    by simp_all
  have ilt: "i < ?n" using iin st by auto
  have l1: "MojoSet_FindLoop s key [?st ..< ?n] = Some (List.find ?P [?st ..< ?n])"
    by (rule MojoSet_FindLoop_find[OF ks(1)]) (use ks in auto)
  have l2: "MojoSet_FindLoop s key [0 ..< ?st] = Some (List.find ?P [0 ..< ?st])"
    by (rule MojoSet_FindLoop_find[OF ks(1)]) (use ks st in auto)
  have i': "(case List.find ?P [?st ..< ?n] of None \<Rightarrow> List.find ?P [0 ..< ?st]
             | Some x \<Rightarrow> Some x) = Some i"
    using i unfolding find_over_append .
  have "MojoSet_FindEmptyOrMatching h s key = Some i"
    unfolding MojoSet_FindEmptyOrMatching_def Let_def l1 l2
    using i' pos by (simp split: option.splits)
  moreover have "KeyAt s i = Some None \<or> KeyAt s i = Some key"
    using Pi by (simp add: MojoSet_slot_free_or_def)
  ultimately show ?thesis using ilt i by (intro exI[of _ i]) simp
qed

lemma MojoSet_example_reached:
  "do { (s0, _) \<leftarrow> MojoSet_Create nat_hash MojoSet_new MojoSet_cfg_4_8 [] None 0;
        (s1, _) \<leftarrow> MojoSet_Insert nat_hash s0 (Some 1);
        (s2, _) \<leftarrow> MojoSet_Insert nat_hash s1 (Some 5);
        Some s2 } = Some MojoSet_example"
  by code_simp

theorem MojoSet_FindEmptyOrMatching_finds_witness:
  "MojoSet_table_inv MojoSet_example
   \<and> m_ActiveCount MojoSet_example < m_TableCount MojoSet_example
   \<and> MojoSet_FindEmptyOrMatching nat_hash MojoSet_example (Some 9) = Some 3
   \<and> KeyAt MojoSet_example 3 = Some None
   \<and> (\<exists>i. List.find (MojoSet_slot_free_or MojoSet_example (Some 9))
              ([nat_hash (Some 9) mod m_TableCount MojoSet_example
                  ..< m_TableCount MojoSet_example]
               @ [0 ..< nat_hash (Some 9) mod m_TableCount MojoSet_example]) = Some i)"
proof -
  have inv: "MojoSet_table_inv MojoSet_example" by code_simp
  have room: "m_ActiveCount MojoSet_example < m_TableCount MojoSet_example" by code_simp
  have key: "Some (9::nat) \<noteq> None" by simp
  have val: "MojoSet_FindEmptyOrMatching nat_hash MojoSet_example (Some 9) = Some 3"
    by code_simp
  have slot: "KeyAt MojoSet_example 3 = Some None" by code_simp
  from MojoSet_FindEmptyOrMatching_finds[OF inv room key, of nat_hash]
  show ?thesis using inv room val slot by auto
qed

subsection \<open>Inserting a key twice\<close>
















subsection \<open>Lookups on a full table and after a capped growth\<close>

text \<open>
  Claim C1 (the code departs from it). With the configuration of the first scenario of
  the specification (4 hashed slots, grow at 80 percent) four \<^verbatim>\<open>Insert\<close> calls succeed and
  fill all 4 slots, since the grow test precedes the insertion. On the full table
  \<^verbatim>\<open>FindEmptyOrMatching\<close> of an absent key reaches its trailing \<^verbatim>\<open>return 0\<close>, slot 0 is
  occupied, and \<^verbatim>\<open>Contains\<close> answers true for the key 5 that was never inserted.
\<close>

theorem MojoSet_Contains_never_inserted:
  "do { (s0, _) \<leftarrow> MojoSet_Create nat_hash MojoSet_new MojoSet_cfg_4_8 [] None 0;
        (s1, _) \<leftarrow> MojoSet_Insert nat_hash s0 (Some 1);
        (s2, _) \<leftarrow> MojoSet_Insert nat_hash s1 (Some 2);
        (s3, _) \<leftarrow> MojoSet_Insert nat_hash s2 (Some 3);
        (s4, st) \<leftarrow> MojoSet_Insert nat_hash s3 (Some 4);
        found \<leftarrow> MojoSet_Contains nat_hash s4 (Some 5);
        Some (st, m_ActiveCount s4, m_TableCount s4, m_Keys s4, found) }
   = Some (kMojoStatus_Ok, 4, 4,
           Some [Some 4, Some 1, Some 2, Some 3, None, None, None, None], True)"
  by code_simp

text \<open>
  A second departure, on a table that is not full: without dynamic allocation the table
  grows in place from 3 to the 4 allocated slots, not to the double. \<^verbatim>\<open>Resize\<close> moves
  key 11 to slot 0 while slot 3 is taken and then empties slot 3, so the probe for 11
  stops at the empty slot 3 and \<^verbatim>\<open>Contains\<close> answers false for an inserted key.
\<close>

lemma MojoSet_Contains_lost_key:
  "do { (s0, _) \<leftarrow> MojoSet_Create nat_hash MojoSet_new MojoSet_cfg_3_4_fixed [] None 0;
        (s1, st1) \<leftarrow> MojoSet_Insert nat_hash s0 (Some 10);
        (s2, st2) \<leftarrow> MojoSet_Insert nat_hash s1 (Some 11);
        (s3, st3) \<leftarrow> MojoSet_Insert nat_hash s2 (Some 8);
        found \<leftarrow> MojoSet_Contains nat_hash s3 (Some 11);
        Some (st1, st2, st3, m_ActiveCount s3, m_TableCount s3, m_Keys s3, found) }
   = Some (kMojoStatus_Ok, kMojoStatus_Ok, kMojoStatus_Ok, 3, 4,
           Some [Some 11, Some 8, Some 10, None], False)"
  by code_simp

subsection \<open>A failing allocation\<close>

text \<open>
  Claim C6 (the code departs from it). The allocator serves the buffer of \<^verbatim>\<open>Create\<close> and
  fails afterwards. The set holds the keys 1 and 2 in its 2 slots, and \<^verbatim>\<open>Insert\<close> of 3
  grows first: \<^verbatim>\<open>Resize\<close> sets the counts for the new buffer, \<^verbatim>\<open>Allocate\<close> returns
  \<^verbatim>\<open>NULL\<close>, and \<^verbatim>\<open>Construct\<close> writes through it. Neither \<^verbatim>\<open>Grow\<close> nor \<^verbatim>\<open>Insert\<close> returns;
  no status \<^verbatim>\<open>could-not-alloc\<close> is returned, and the contents are not "as before the
  call". The same holds for a \<^verbatim>\<open>Create\<close> whose first allocation fails. The other half of
  the claim holds: without dynamic allocation, on 2 allocated slots that are full,
  \<^verbatim>\<open>Insert\<close> of 3 allocates nothing, returns \<^verbatim>\<open>could-not-alloc\<close> and leaves the set as it
  was.
\<close>

theorem MojoSet_Insert_allocation_fails:
  "do { (s0, st0) \<leftarrow> MojoSet_Create nat_hash MojoSet_new MojoSet_cfg_2_2 [True, False] None 0;
        (s1, st1) \<leftarrow> MojoSet_Insert nat_hash s0 (Some 1);
        (s2, st2) \<leftarrow> MojoSet_Insert nat_hash s1 (Some 2);
        Some (st0, st1, st2, m_Keys s2, m_ActiveCount s2,
              MojoSet_Grow nat_hash s2,
              MojoSet_Insert nat_hash s2 (Some 3)) }
   = Some (kMojoStatus_Ok, kMojoStatus_Ok, kMojoStatus_Ok, Some [Some 2, Some 1], 2,
           None, None)
   \<and> MojoSet_Create nat_hash (MojoSet_new :: nat MojoSet) MojoSet_cfg_2_2 [False] None 0 = None
   \<and> do { (s0, _) \<leftarrow> MojoSet_Create nat_hash MojoSet_new
                        (MojoSet_cfg_2_2\<lparr>cfg_DynamicAlloc := False\<rparr>) [] None 0;
           (s1, _) \<leftarrow> MojoSet_Insert nat_hash s0 (Some 1);
           (s2, _) \<leftarrow> MojoSet_Insert nat_hash s1 (Some 2);
           (s3, st3) \<leftarrow> MojoSet_Insert nat_hash s2 (Some 3);
           Some (st3, s3 = s2, m_Keys s3, m_ActiveCount s3) }
     = Some (kMojoStatus_CouldNotAlloc, True, Some [Some 2, Some 1], 2)"
  by code_simp

subsection \<open>Contains on a null key or a container that is not ok\<close>

text \<open>
  Claim C10. \<^verbatim>\<open>MojoSet::Contains\<close> and \<^verbatim>\<open>MojoMultiMap::Contains\<close> return false when the key
  is the hash-null key or the status of the container is not \<^verbatim>\<open>ok\<close>, whatever the table
  holds: the answer does not depend on a probe, and it is returned also where a probe
  would not return (no buffer, no hashed slot).
\<close>

theorem Contains_null_key_or_not_ok:
  "(key = None \<or> m_Status s \<noteq> kMojoStatus_Ok \<longrightarrow> MojoSet_Contains h s key = Some False)
   \<and> (key = None \<or> m_Status m \<noteq> kMojoStatus_Ok
        \<longrightarrow> MojoMultiMap_Contains h m key = Some False)"
  by (auto simp: MojoSet_Contains_def MojoMultiMap_Contains_def)

theorem Contains_null_key_or_not_ok_witness:
  "m_Status (MojoSet_new :: nat MojoSet) \<noteq> kMojoStatus_Ok
   \<and> MojoSet_FindEmptyOrMatching nat_hash (MojoSet_new :: nat MojoSet) (Some 1) = None
   \<and> MojoSet_Contains nat_hash (MojoSet_new :: nat MojoSet) (Some 1) = Some False
   \<and> m_Status (MojoMultiMap_new :: (nat, nat) MojoMultiMap) \<noteq> kMojoStatus_Ok
   \<and> MojoMultiMap_FindEmptyOrMatching nat_hash (MojoMultiMap_new :: (nat, nat) MojoMultiMap)
         (Some 1) = None
   \<and> MojoMultiMap_Contains nat_hash (MojoMultiMap_new :: (nat, nat) MojoMultiMap) (Some 1)
       = Some False"
proof -
  have s: "m_Status (MojoSet_new :: nat MojoSet) \<noteq> kMojoStatus_Ok"
    by (simp add: MojoSet_new_def MojoSet_Init_def)
  have m: "m_Status (MojoMultiMap_new :: (nat, nat) MojoMultiMap) \<noteq> kMojoStatus_Ok"
    by (simp add: MojoMultiMap_new_def MojoMultiMap_Init_def)
  have ps: "MojoSet_FindEmptyOrMatching nat_hash (MojoSet_new :: nat MojoSet) (Some 1) = None"
    by code_simp
  have pm: "MojoMultiMap_FindEmptyOrMatching nat_hash
      (MojoMultiMap_new :: (nat, nat) MojoMultiMap) (Some 1) = None"
    by code_simp
  from Contains_null_key_or_not_ok
    [of "Some 1" "MojoSet_new :: nat MojoSet" nat_hash
        "MojoMultiMap_new :: (nat, nat) MojoMultiMap"]
  show ?thesis using s m ps pm by simp
qed

subsection \<open>Enumeration of the keys of a multimap\<close>

text \<open>
  Claim C5 (the code departs from it). The third scenario of the specification: a multimap
  with 4 hashed slots and the pairs (1,10), (1,11), (9,20), (1,12). All four \<^verbatim>\<open>Insert\<close>
  calls succeed and the table is full. \<^verbatim>\<open>IsFirstInRun\<close> walks backwards from each slot of
  key 1 and meets another slot of key 1 before it meets an empty slot, since there is
  none: no slot of key 1 is first in its run, and \<^verbatim>\<open>Enumerate\<close> pushes key 9 only.
\<close>

theorem MojoMultiMap_Enumerate_skips_key:
  "do { (m0, _) \<leftarrow> MojoMultiMap_Create nat_hash (MojoMultiMap_new :: (nat, nat) MojoMultiMap)
                     None MojoSet_cfg_4_8 [] None 0;
        (m1, _) \<leftarrow> MojoMultiMap_Insert nat_hash m0 (Some 1) (Some 10);
        (m2, _) \<leftarrow> MojoMultiMap_Insert nat_hash m1 (Some 1) (Some 11);
        (m3, _) \<leftarrow> MojoMultiMap_Insert nat_hash m2 (Some 9) (Some 20);
        (m4, st) \<leftarrow> MojoMultiMap_Insert nat_hash m3 (Some 1) (Some 12);
        pushed \<leftarrow> MojoMultiMap_Enumerate m4 None;
        Some (st, m_ActiveCount m4, m_TableCount m4, m_KeyValues m4, pushed) }
   = Some (kMojoStatus_Ok, 4, 4,
           Some [(Some 1, Some 12), (Some 1, Some 10), (Some 1, Some 11), (Some 9, Some 20),
                 (None, None), (None, None), (None, None), (None, None)],
           [Some 9])"
  by code_simp

subsection \<open>The two tables of a relation\<close>

text \<open>
  Claim C4 (the code departs from it). A relation without dynamic allocation, 3 hashed
  slots of 4 allocated, grow threshold 60. Three \<^verbatim>\<open>InsertChildParent\<close> calls return
  \<^verbatim>\<open>ok\<close>: (3,10), (4,11), (5,8). The third call grows the multimap in place from 3 to
  4 slots, and the pair (11,4) ends in slot 0 with its hash slot 3 empty. The map holds
  child 4 with parent 11; the multimap finds neither the key 11 nor the pair (11,4).
\<close>

theorem MojoRelation_tables_disagree:
  "do { (r0, st0) \<leftarrow> MojoRelation_Create nat_hash (MojoRelation_new :: nat MojoRelation)
                       None MojoSet_cfg_3_4_fixed [] None 0;
        (r1, st1) \<leftarrow> MojoRelation_InsertChildParent nat_hash r0 (Some 3) (Some 10);
        (r2, st2) \<leftarrow> MojoRelation_InsertChildParent nat_hash r1 (Some 4) (Some 11);
        (r3, st3) \<leftarrow> MojoRelation_InsertChildParent nat_hash r2 (Some 5) (Some 8);
        child_known \<leftarrow> MojoRelation_Contains nat_hash r3 (Some 4);
        parent_of_4 \<leftarrow> MojoRelation_FindParent nat_hash r3 (Some 4);
        parent_known \<leftarrow> MojoRelation_ContainsParent nat_hash r3 (Some 11);
        pair_known \<leftarrow> MojoMultiMap_ContainsPair nat_hash (m_ParentToChild r3) (Some 11) (Some 4);
        Some ([st0, st1, st2, st3], child_known, parent_of_4, parent_known, pair_known,
              m_KeyValues (m_ParentToChild r3)) }
   = Some ([kMojoStatus_Ok, kMojoStatus_Ok, kMojoStatus_Ok, kMojoStatus_Ok],
           True, Some 11, False, False,
           Some [(Some 11, Some 4), (Some 8, Some 5), (Some 10, Some 3), (None, None)])"
  by code_simp

subsection \<open>The change count of a relation\<close>

text \<open>No step of the map changes the status of the table, and none lowers its change
  count.\<close>

lemma SetKeyValueAt_Some:
  assumes "SetKeyValueAt m i kv = Some m'"
  obtains kvs where "m_KeyValues m = Some kvs" "i < length kvs"
    "m' = m\<lparr>m_KeyValues := Some (kvs[i := kv])\<rparr>"
  using assms by (cases "m_KeyValues m") (auto simp: SetKeyValueAt_def split: if_splits)

lemma SetKeyValueAt_ChangeCount_Status:
  "SetKeyValueAt m i kv = Some m' \<Longrightarrow> m_ChangeCount m' = m_ChangeCount m \<and> m_Status m' = m_Status m"
  by (erule SetKeyValueAt_Some) simp

lemma MojoMap_Reinsert_ChangeCount_Status:
  assumes "MojoMap_Reinsert h m i = Some m'"
  shows "m_ChangeCount m' = m_ChangeCount m \<and> m_Status m' = m_Status m"
proof -
  from assms obtain kv j where "KeyValueAt m i = Some kv"
    and "MojoMultiMap_FindEmptyOrMatching h m (fst kv) = Some j"
    and r: "(if j \<noteq> i then do { m1 \<leftarrow> SetKeyValueAt m j kv; SetKeyValueAt m1 i KeyValue_empty }
             else Some m) = Some m'"
    by (auto simp: MojoMap_Reinsert_def bind_eq_Some_conv)
  show ?thesis
  proof (cases "j = i")
    case True
    with r show ?thesis by simp
  next
    case False
    with r obtain m1 where "SetKeyValueAt m j kv = Some m1" "SetKeyValueAt m1 i KeyValue_empty = Some m'"
      by (auto simp: bind_eq_Some_conv)
    then show ?thesis by (simp add: SetKeyValueAt_ChangeCount_Status)
  qed
qed

lemma MojoMap_ReinsertEach_ChangeCount_Status:
  "MojoMap_ReinsertEach h m is = Some m' \<Longrightarrow> m_ChangeCount m' = m_ChangeCount m \<and> m_Status m' = m_Status m"
proof (induction "is" arbitrary: m)
  case Nil
  then show ?case by simp
next
  case (Cons i "is")
  from Cons.prems obtain kv where kv: "KeyValueAt m i = Some kv"
    by (cases "KeyValueAt m i") auto
  show ?case
  proof (cases "fst kv = None")
    case True
    with Cons kv show ?thesis by simp
  next
    case False
    with Cons.prems kv obtain m1 where m1: "MojoMap_Reinsert h m i = Some m1"
      and rest: "MojoMap_ReinsertEach h m1 is = Some m'"
      by (cases "MojoMap_Reinsert h m i") auto
    from Cons.IH[OF rest] MojoMap_Reinsert_ChangeCount_Status[OF m1] show ?thesis by simp
  qed
qed

lemma MojoMap_ReinsertRun_ChangeCount_Status:
  "MojoMap_ReinsertRun h m is = Some (m', b) \<Longrightarrow> m_ChangeCount m' = m_ChangeCount m \<and> m_Status m' = m_Status m"
proof (induction "is" arbitrary: m)
  case Nil
  then show ?case by simp
next
  case (Cons i "is")
  from Cons.prems obtain kv where kv: "KeyValueAt m i = Some kv"
    by (cases "KeyValueAt m i") auto
  show ?case
  proof (cases "fst kv = None")
    case True
    with Cons kv show ?thesis by simp
  next
    case False
    with Cons.prems kv obtain m1 where m1: "MojoMap_Reinsert h m i = Some m1"
      and rest: "MojoMap_ReinsertRun h m1 is = Some (m', b)"
      by (cases "MojoMap_Reinsert h m i") auto
    from Cons.IH[OF rest] MojoMap_Reinsert_ChangeCount_Status[OF m1] show ?thesis by simp
  qed
qed

lemma MojoMap_run_ChangeCount_Status:
  "MojoMap_run h c = Some y \<Longrightarrow>
     m_ChangeCount (MojoMap_call_table c) \<le> m_ChangeCount (fst y)
     \<and> m_Status (fst y) = m_Status (MojoMap_call_table c)"
proof (induct rule: MojoMap_run.raw_induct[rotated, consumes 1, case_names step])
  case (step f h c y)
  note IH = step(1)
  note body = step(2)
  show ?case
  proof (cases c)
    case (CallMap_Insert m key val)
    show ?thesis
    proof (cases "m_Status m \<noteq> kMojoStatus_Ok \<or> key = None")
      case True
      with body CallMap_Insert show ?thesis by (auto split: if_splits)
    next
      case False
      with body CallMap_Insert obtain m1 st1 where
        g: "(if m_AutoGrow m then f h (CallMap_Grow m) else Some (m, kMojoStatus_Ok)) = Some (m1, st1)"
        and rest: "(if st1 \<noteq> kMojoStatus_Ok then Some (m1, st1)
                    else if m_ActiveCount m1 < m_TableCount m1
                      then MojoMultiMap_FindEmptyOrMatching h m1 key \<bind>
                           (\<lambda>index.
                               KeyValueAt m1 index \<bind>
                               (\<lambda>kv. if fst kv = None
                                     then SetKeyValueAt m1 index (key, val) \<bind>
                                        (\<lambda>m2. Some (m2\<lparr>m_ActiveCount := m_ActiveCount m2 + 1,
                                                 m_ChangeCount := m_ChangeCount m2 + 1\<rparr>, kMojoStatus_Ok))
                                     else if snd kv = val then Some (m1, kMojoStatus_Ok)
                                     else SetKeyValueAt m1 index (fst kv, val) \<bind>
                                        (\<lambda>m2. Some (m2\<lparr>m_ChangeCount := m_ChangeCount m2 + 1\<rparr>,
                                                 kMojoStatus_Ok))))
                      else Some (m1, kMojoStatus_CouldNotAlloc)) = Some y"
        by (auto simp: bind_eq_Some_conv)
      have le1: "m_ChangeCount m \<le> m_ChangeCount m1 \<and> m_Status m1 = m_Status m"
      proof (cases "m_AutoGrow m")
        case True
        with g IH[of h "CallMap_Grow m" "(m1, st1)"] show ?thesis by simp
      next
        case False
        with g show ?thesis by simp
      qed
      have "m_ChangeCount m1 \<le> m_ChangeCount (fst y) \<and> m_Status (fst y) = m_Status m1"
        using rest
        by (auto simp: bind_eq_Some_conv SetKeyValueAt_ChangeCount_Status split: if_splits)
      with le1 CallMap_Insert show ?thesis by simp
    qed
  next
    case (CallMap_Grow m)
    with body show ?thesis
      by (auto simp: Let_def split: if_splits dest: IH)
  next
    case (CallMap_Resize m ntc ncap)
    show ?thesis
    proof (cases "m_Alloc m \<noteq> None \<and> m_AllocCount m \<noteq> ncap")
      case True
      then obtain a where a: "m_Alloc m = Some a" by auto
      have dyn: "\<And>m2. m_ChangeCount m2 = m_ChangeCount m \<and> m_Status m2 = m_Status m \<Longrightarrow>
          (case m_KeyValues m of
             None \<Rightarrow> Some (m2, kMojoStatus_Ok)
           | Some old \<Rightarrow>
               if m_KeyValues m2 = None then Some (m2, kMojoStatus_Ok)
               else f h (CallMap_InsertOld m2 old [0 ..< m_TableCount m])) = Some y
          \<Longrightarrow> m_ChangeCount m \<le> m_ChangeCount (fst y) \<and> m_Status (fst y) = m_Status m"
      proof -
        fix m2 :: "('a, 'b) MojoMap"
        assume c2: "m_ChangeCount m2 = m_ChangeCount m \<and> m_Status m2 = m_Status m"
          and r: "(case m_KeyValues m of
             None \<Rightarrow> Some (m2, kMojoStatus_Ok)
           | Some old \<Rightarrow>
               if m_KeyValues m2 = None then Some (m2, kMojoStatus_Ok)
               else f h (CallMap_InsertOld m2 old [0 ..< m_TableCount m])) = Some y"
        show "m_ChangeCount m \<le> m_ChangeCount (fst y) \<and> m_Status (fst y) = m_Status m"
        proof (cases "m_KeyValues m")
          case None
          with r c2 show ?thesis by auto
        next
          case (Some old)
          show ?thesis
          proof (cases "m_KeyValues m2 = None")
            case True
            with r Some c2 show ?thesis by auto
          next
            case False
            with r Some have "f h (CallMap_InsertOld m2 old [0 ..< m_TableCount m]) = Some y"
              by simp
            from IH[OF this] c2 show ?thesis by simp
          qed
        qed
      qed
      note dynT = \<open>m_Alloc m \<noteq> None \<and> m_AllocCount m \<noteq> ncap\<close>
      have "m_ChangeCount m \<le> m_ChangeCount (fst y) \<and> m_Status (fst y) = m_Status m"
      proof (cases "ncap = 0")
        case True
        let ?m2 = "m\<lparr>m_AllocCount := ncap, m_TableCount := ntc, m_ActiveCount := 0,
                   m_Alloc := Some a, m_KeyValues := None\<rparr>"
        have r: "(case m_KeyValues m of
             None \<Rightarrow> Some (?m2, kMojoStatus_Ok)
           | Some old \<Rightarrow>
               if m_KeyValues ?m2 = None then Some (?m2, kMojoStatus_Ok)
               else f h (CallMap_InsertOld ?m2 old [0 ..< m_TableCount m])) = Some y"
          using body CallMap_Resize dynT a True
          by (cases "m_KeyValues m") (simp_all add: Let_def)
        have "m_ChangeCount ?m2 = m_ChangeCount m \<and> m_Status ?m2 = m_Status m" by simp
        from dyn[OF this r] show ?thesis .
      next
        case False
        obtain ok a' where al: "Allocate a = (ok, a')" by (cases "Allocate a")
        show ?thesis
        proof (cases ok)
          case failed: False
          have "y = (m\<lparr>m_Alloc := Some a'\<rparr>, kMojoStatus_CouldNotAlloc)"
            using body CallMap_Resize dynT a False al failed by (simp add: Let_def)
          then show ?thesis by simp
        next
          case True
          let ?m2 = "m\<lparr>m_AllocCount := ncap, m_TableCount := ntc, m_ActiveCount := 0,
                        m_Alloc := Some a',
                        m_KeyValues := Some (replicate ncap KeyValue_empty)\<rparr>"
          have r: "(case m_KeyValues m of
               None \<Rightarrow> Some (?m2, kMojoStatus_Ok)
             | Some old \<Rightarrow>
                 if m_KeyValues ?m2 = None then Some (?m2, kMojoStatus_Ok)
                 else f h (CallMap_InsertOld ?m2 old [0 ..< m_TableCount m])) = Some y"
            using body CallMap_Resize dynT a False al True
            by (cases "m_KeyValues m") (simp_all add: Let_def)
          have "m_ChangeCount ?m2 = m_ChangeCount m \<and> m_Status ?m2 = m_Status m" by simp
          from dyn[OF this r] show ?thesis .
        qed
      qed
      then show ?thesis using CallMap_Resize by simp
    next
      case False
      with body CallMap_Resize
      have r: "(if ntc < m_TableCount m
            then map_option (\<lambda>m'. (m', kMojoStatus_Ok))
                  (MojoMap_ReinsertEach h (m\<lparr>m_TableCount := ntc\<rparr>) [0..<m_TableCount m])
            else if m_TableCount m < ntc
                 then MojoMap_ReinsertEach h (m\<lparr>m_TableCount := ntc\<rparr>) [0..<m_TableCount m] \<bind>
                      (\<lambda>m1. MojoMap_ReinsertRun h m1 [m_TableCount m..<ntc] \<bind>
                            (\<lambda>(m2, _). Some (m2, kMojoStatus_Ok)))
                 else Some (m, kMojoStatus_Ok)) = Some y"
        by (cases "m_Alloc m") (auto split: if_splits)
      show ?thesis
      proof (cases "ntc < m_TableCount m")
        case True
        with r obtain m' where "MojoMap_ReinsertEach h (m\<lparr>m_TableCount := ntc\<rparr>) [0..<m_TableCount m] = Some m'"
          "y = (m', kMojoStatus_Ok)" by auto
        with MojoMap_ReinsertEach_ChangeCount_Status[OF this(1)] CallMap_Resize show ?thesis by simp
      next
        case nlt: False
        show ?thesis
        proof (cases "m_TableCount m < ntc")
          case True
          with r nlt obtain m1 m' b where
            "MojoMap_ReinsertEach h (m\<lparr>m_TableCount := ntc\<rparr>) [0..<m_TableCount m] = Some m1"
            "MojoMap_ReinsertRun h m1 [m_TableCount m..<ntc] = Some (m', b)"
            "y = (m', kMojoStatus_Ok)"
            by (auto simp: bind_eq_Some_conv)
          with MojoMap_ReinsertEach_ChangeCount_Status[OF this(1)] MojoMap_ReinsertRun_ChangeCount_Status[OF this(2)]
            CallMap_Resize show ?thesis by simp
        next
          case False
          with r nlt CallMap_Resize show ?thesis by auto
        qed
      qed
    qed
  next
    case (CallMap_InsertOld m old "is")
    show ?thesis
    proof (cases "is")
      case Nil
      with body CallMap_InsertOld show ?thesis by auto
    next
      case (Cons i rest)
      show ?thesis
      proof (cases "i < length old \<and> fst (old ! i) \<noteq> None")
        case True
        with body CallMap_InsertOld Cons obtain m1 st1 where
          a: "f h (CallMap_Insert m (fst (old ! i)) (snd (old ! i))) = Some (m1, st1)"
          and b: "f h (CallMap_InsertOld m1 old rest) = Some y"
          by (auto simp: bind_eq_Some_conv)
        from IH[OF a] IH[OF b] CallMap_InsertOld show ?thesis by simp
      next
        case False
        with body CallMap_InsertOld Cons have "f h (CallMap_InsertOld m old rest) = Some y"
          by (auto split: if_splits)
        from IH[OF this] CallMap_InsertOld show ?thesis by simp
      qed
    qed
  qed
qed










lemma MojoRelation_example_reached:
  "do { (r0, _) \<leftarrow> MojoRelation_Create nat_hash MojoRelation_new None MojoSet_cfg_4_8 [] None 0;
        (r1, _) \<leftarrow> MojoRelation_InsertChildParent nat_hash r0 (Some 1) (Some 11);
        Some r1 } = Some MojoRelation_example"
  by code_simp




subsection \<open>A failing insert into the parent-to-child table\<close>

text \<open>Two tables that agree on the table count and on the outcome of the probe test in
  every slot send every probe to the same slot.\<close>

lemma MojoMultiMap_FindLoop_cong:
  "(\<And>i. i \<in> set is \<Longrightarrow> map_option hit (KeyValueAt m' i) = map_option hit (KeyValueAt m i))
   \<Longrightarrow> MojoMultiMap_FindLoop hit m' is = MojoMultiMap_FindLoop hit m is"
proof (induction "is")
  case Nil
  show ?case by simp
next
  case (Cons i "is")
  have a: "map_option hit (KeyValueAt m' i) = map_option hit (KeyValueAt m i)"
    by (rule Cons.prems) simp
  have b: "MojoMultiMap_FindLoop hit m' is = MojoMultiMap_FindLoop hit m is"
    by (rule Cons.IH) (simp add: Cons.prems)
  from a b show ?case
    by (cases "KeyValueAt m i"; cases "KeyValueAt m' i") auto
qed

lemma MojoMultiMap_FindWith_cong:
  assumes "m_TableCount m' = m_TableCount m"
    and "\<And>i. i < m_TableCount m \<Longrightarrow>
           map_option hit (KeyValueAt m' i) = map_option hit (KeyValueAt m i)"
  shows "MojoMultiMap_FindWith hit h m' key = MojoMultiMap_FindWith hit h m key"
proof (cases "m_TableCount m = 0")
  case True
  with assms(1) show ?thesis by (simp add: MojoMultiMap_FindWith_def)
next
  case False
  let ?s = "h key mod m_TableCount m"
  have s: "?s < m_TableCount m" using False by simp
  have 1: "MojoMultiMap_FindLoop hit m' [?s ..< m_TableCount m]
         = MojoMultiMap_FindLoop hit m [?s ..< m_TableCount m]"
    by (rule MojoMultiMap_FindLoop_cong) (simp add: assms(2))
  have 2: "MojoMultiMap_FindLoop hit m' [0 ..< ?s] = MojoMultiMap_FindLoop hit m [0 ..< ?s]"
    by (rule MojoMultiMap_FindLoop_cong) (use s in \<open>simp add: assms(2)\<close>)
  show ?thesis
    unfolding MojoMultiMap_FindWith_def Let_def assms(1) 1 2 by (rule refl)
qed

lemma KeyValueAt_SetKeyValueAt:
  "SetKeyValueAt m i kv = Some m' \<Longrightarrow>
   KeyValueAt m' j = (if j = i then Some kv else KeyValueAt m j)"
  by (erule SetKeyValueAt_Some) (simp add: KeyValueAt_def)

lemma SetKeyValueAt_TableCount:
  "SetKeyValueAt m i kv = Some m' \<Longrightarrow> m_TableCount m' = m_TableCount m"
  by (erule SetKeyValueAt_Some) simp


lemma MojoMap_Insert_Contains:
  assumes "MojoMap_Insert h m key val = Some (m', kMojoStatus_Ok)"
  shows "MojoMap_Contains h m' key = Some True"
proof -
  have run: "MojoMap_run h (CallMap_Insert m key val) = Some (m', kMojoStatus_Ok)"
    using assms by (simp add: MojoMap_Insert_def)
  from MojoMap_run_ChangeCount_Status[OF run] have st': "m_Status m' = m_Status m" by simp
  have ok: "m_Status m = kMojoStatus_Ok" and key: "key \<noteq> None"
    using run by (subst (asm) MojoMap_run.simps, auto split: if_splits)+
  let ?hit = "\<lambda>kv :: ('a, 'b) KeyValue. fst kv = None \<or> fst kv = key"
  from run ok key obtain m1 st1 where
    g: "(if m_AutoGrow m then MojoMap_run h (CallMap_Grow m) else Some (m, kMojoStatus_Ok))
          = Some (m1, st1)"
    and rest: "(if m_ActiveCount m1 < m_TableCount m1
                then MojoMultiMap_FindEmptyOrMatching h m1 key \<bind>
                     (\<lambda>index.
                         KeyValueAt m1 index \<bind>
                         (\<lambda>kv. if fst kv = None
                               then SetKeyValueAt m1 index (key, val) \<bind>
                                  (\<lambda>m2. Some (m2\<lparr>m_ActiveCount := m_ActiveCount m2 + 1,
                                           m_ChangeCount := m_ChangeCount m2 + 1\<rparr>, kMojoStatus_Ok))
                               else if snd kv = val then Some (m1, kMojoStatus_Ok)
                               else SetKeyValueAt m1 index (fst kv, val) \<bind>
                                  (\<lambda>m2. Some (m2\<lparr>m_ChangeCount := m_ChangeCount m2 + 1\<rparr>,
                                           kMojoStatus_Ok))))
                else Some (m1, kMojoStatus_CouldNotAlloc)) = Some (m', kMojoStatus_Ok)"
  proof -
    from run ok key obtain m1 st1 where
      g: "(if m_AutoGrow m then MojoMap_run h (CallMap_Grow m) else Some (m, kMojoStatus_Ok))
            = Some (m1, st1)"
      and r: "(if st1 \<noteq> kMojoStatus_Ok then Some (m1, st1)
               else if m_ActiveCount m1 < m_TableCount m1
                then MojoMultiMap_FindEmptyOrMatching h m1 key \<bind>
                     (\<lambda>index.
                         KeyValueAt m1 index \<bind>
                         (\<lambda>kv. if fst kv = None
                               then SetKeyValueAt m1 index (key, val) \<bind>
                                  (\<lambda>m2. Some (m2\<lparr>m_ActiveCount := m_ActiveCount m2 + 1,
                                           m_ChangeCount := m_ChangeCount m2 + 1\<rparr>, kMojoStatus_Ok))
                               else if snd kv = val then Some (m1, kMojoStatus_Ok)
                               else SetKeyValueAt m1 index (fst kv, val) \<bind>
                                  (\<lambda>m2. Some (m2\<lparr>m_ChangeCount := m_ChangeCount m2 + 1\<rparr>,
                                           kMojoStatus_Ok))))
                else Some (m1, kMojoStatus_CouldNotAlloc)) = Some (m', kMojoStatus_Ok)"
      by (subst (asm) MojoMap_run.simps) (auto simp: bind_eq_Some_conv)
    have "st1 = kMojoStatus_Ok"
    proof (rule ccontr)
      assume "st1 \<noteq> kMojoStatus_Ok"
      with r show False by simp
    qed
    with r g that[of m1 st1] show ?thesis by simp
  qed
  from rest obtain index kv where
    idx: "MojoMultiMap_FindEmptyOrMatching h m1 key = Some index"
    and kv: "KeyValueAt m1 index = Some kv"
    and put: "(if fst kv = None
               then SetKeyValueAt m1 index (key, val) \<bind>
                  (\<lambda>m2. Some (m2\<lparr>m_ActiveCount := m_ActiveCount m2 + 1,
                           m_ChangeCount := m_ChangeCount m2 + 1\<rparr>, kMojoStatus_Ok))
               else if snd kv = val then Some (m1, kMojoStatus_Ok)
               else SetKeyValueAt m1 index (fst kv, val) \<bind>
                  (\<lambda>m2. Some (m2\<lparr>m_ChangeCount := m_ChangeCount m2 + 1\<rparr>,
                           kMojoStatus_Ok))) = Some (m', kMojoStatus_Ok)"
    by (auto simp: bind_eq_Some_conv split: if_splits)
  have "\<exists>kv'. KeyValueAt m' index = Some kv' \<and> fst kv' \<noteq> None
        \<and> m_TableCount m' = m_TableCount m1
        \<and> (\<forall>i. map_option ?hit (KeyValueAt m' i) = map_option ?hit (KeyValueAt m1 i))"
  proof (cases "fst kv = None")
    case True
    with put obtain m2 where m2: "SetKeyValueAt m1 index (key, val) = Some m2"
      and m': "m' = m2\<lparr>m_ActiveCount := m_ActiveCount m2 + 1,
                       m_ChangeCount := m_ChangeCount m2 + 1\<rparr>"
      by (auto simp: bind_eq_Some_conv)
    have "KeyValueAt m' i = KeyValueAt m2 i" for i by (simp add: m' KeyValueAt_def)
    with KeyValueAt_SetKeyValueAt[OF m2] SetKeyValueAt_TableCount[OF m2] kv True key m'
    show ?thesis by auto
  next
    case False
    show ?thesis
    proof (cases "snd kv = val")
      case True
      with put False have "m' = m1" by simp
      with kv False show ?thesis by simp
    next
      case ne: False
      with put False obtain m2 where m2: "SetKeyValueAt m1 index (fst kv, val) = Some m2"
        and m': "m' = m2\<lparr>m_ChangeCount := m_ChangeCount m2 + 1\<rparr>"
        by (auto simp: bind_eq_Some_conv)
      have "KeyValueAt m' i = KeyValueAt m2 i" for i by (simp add: m' KeyValueAt_def)
      with KeyValueAt_SetKeyValueAt[OF m2] SetKeyValueAt_TableCount[OF m2] kv False m'
      show ?thesis by auto
    qed
  qed
  then obtain kv' where kv': "KeyValueAt m' index = Some kv'" "fst kv' \<noteq> None"
    and tc: "m_TableCount m' = m_TableCount m1"
    and same: "\<And>i. map_option ?hit (KeyValueAt m' i) = map_option ?hit (KeyValueAt m1 i)"
    by blast
  have "MojoMultiMap_FindEmptyOrMatching h m' key = MojoMultiMap_FindEmptyOrMatching h m1 key"
    unfolding MojoMultiMap_FindEmptyOrMatching_def
    by (rule MojoMultiMap_FindWith_cong[OF tc]) (rule same)
  with idx kv' st' ok key show ?thesis
    by (simp add: MojoMap_Contains_def)
qed

lemma MojoRelation_fixed_example_reached:
  "do { (r0, _) \<leftarrow> MojoRelation_Create nat_hash MojoRelation_new None MojoSet_cfg_2_2_half []
                     (Some (replicate 5 KeyValue_empty)) 5;
        r1 \<leftarrow> MojoRelation_Reset nat_hash r0;
        (r2, _) \<leftarrow> MojoRelation_InsertChildParent nat_hash r1 (Some 1) (Some 11);
        (r3, _) \<leftarrow> MojoRelation_InsertChildParent nat_hash r2 (Some 2) (Some 12);
        Some r3 } = Some MojoRelation_fixed_example"
  by code_simp

text \<open>Claim C3, amended. \<^verbatim>\<open>InsertChildParent\<close> has no rollback. When the insert into the
  child-to-parent map succeeds and the insert into the parent-to-child multimap returns a
  failure, \<^verbatim>\<open>InsertChildParent\<close> returns that failure and leaves both tables as the two
  inserts left them: the child is in the child-to-parent map.\<close>

theorem MojoRelation_InsertChildParent_keeps_child:
  assumes "child \<noteq> None" and "parent \<noteq> None"
    and "MojoRelation_RemoveChild h r child = Some (r1, st0)"
    and "MojoMap_Insert h (m_ChildToParent r1) child parent = Some (cp, kMojoStatus_Ok)"
    and "MojoMultiMap_Insert h (m_ParentToChild r1) parent child = Some (pc, st)"
    and "st \<noteq> kMojoStatus_Ok"
  shows "MojoRelation_InsertChildParent h r child parent
           = Some (r1\<lparr>m_ChildToParent := cp, m_ParentToChild := pc\<rparr>, st)
         \<and> MojoRelation_Contains h (r1\<lparr>m_ChildToParent := cp, m_ParentToChild := pc\<rparr>) child
           = Some True"
  using assms MojoMap_Insert_Contains[OF assms(4)]
  by (auto simp: MojoRelation_InsertChildParent_def MojoRelation_Contains_def)

theorem MojoRelation_InsertChildParent_keeps_child_witness:
  "\<exists>r1 st0 cp pc st.
      MojoRelation_RemoveChild nat_hash MojoRelation_fixed_example (Some 3) = Some (r1, st0)
    \<and> MojoMap_Insert nat_hash (m_ChildToParent r1) (Some 3) (Some 13) = Some (cp, kMojoStatus_Ok)
    \<and> MojoMultiMap_Insert nat_hash (m_ParentToChild r1) (Some 13) (Some 3) = Some (pc, st)
    \<and> st \<noteq> kMojoStatus_Ok
    \<and> MojoRelation_InsertChildParent nat_hash MojoRelation_fixed_example (Some 3) (Some 13)
        = Some (r1\<lparr>m_ChildToParent := cp, m_ParentToChild := pc\<rparr>, st)
    \<and> MojoRelation_Contains nat_hash (r1\<lparr>m_ChildToParent := cp, m_ParentToChild := pc\<rparr>) (Some 3)
        = Some True"
proof -
  have 1: "MojoRelation_RemoveChild nat_hash MojoRelation_fixed_example (Some 3)
           = Some (MojoRelation_fixed_example, kMojoStatus_NotFound)"
    by code_simp
  have "map_option snd (MojoMap_Insert nat_hash (m_ChildToParent MojoRelation_fixed_example)
                          (Some 3) (Some 13)) = Some kMojoStatus_Ok"
    by code_simp
  then obtain cp where 2:
    "MojoMap_Insert nat_hash (m_ChildToParent MojoRelation_fixed_example) (Some 3) (Some 13)
       = Some (cp, kMojoStatus_Ok)"
    by auto
  have 3: "MojoMultiMap_Insert nat_hash (m_ParentToChild MojoRelation_fixed_example)
             (Some 13) (Some 3)
       = Some (m_ParentToChild MojoRelation_fixed_example, kMojoStatus_CouldNotAlloc)"
    by code_simp
  from MojoRelation_InsertChildParent_keeps_child[OF _ _ 1 2 3] 1 2 3
  show ?thesis by simp
qed

text \<open>A relation on a caller's array of 5 slots: \<^verbatim>\<open>Create\<close> gives 2 slots to the
  parent-to-child table and 3 to the child-to-parent table, and \<^verbatim>\<open>Reset\<close> starts both with
  2 hashed slots. After \<^verbatim>\<open>InsertChildParent( 1, 11 )\<close> and \<^verbatim>\<open>InsertChildParent( 2, 12 )\<close> the
  parent-to-child table is full and cannot grow. \<^verbatim>\<open>InsertChildParent( 3, 13 )\<close> inserts
  into the child-to-parent table, fails on the parent-to-child table and returns
  \<^verbatim>\<open>kMojoStatus_CouldNotAlloc\<close>; afterwards the relation contains the child 3 with parent
  13, and no slot of the parent-to-child table holds the parent 13.\<close>

theorem MojoRelation_InsertChildParent_child_without_parent:
  "do { (r0, st0) \<leftarrow> MojoRelation_Create nat_hash (MojoRelation_new :: nat MojoRelation)
                       None MojoSet_cfg_2_2_half [] (Some (replicate 5 KeyValue_empty)) 5;
        r1 \<leftarrow> MojoRelation_Reset nat_hash r0;
        (r2, st2) \<leftarrow> MojoRelation_InsertChildParent nat_hash r1 (Some 1) (Some 11);
        (r3, st3) \<leftarrow> MojoRelation_InsertChildParent nat_hash r2 (Some 2) (Some 12);
        (r4, st4) \<leftarrow> MojoRelation_InsertChildParent nat_hash r3 (Some 3) (Some 13);
        child_known \<leftarrow> MojoRelation_Contains nat_hash r4 (Some 3);
        parent_of_3 \<leftarrow> MojoRelation_FindParent nat_hash r4 (Some 3);
        Some (st0, st2, st3, st4, child_known, parent_of_3,
              m_KeyValues (m_ParentToChild r4),
              MojoMultiMap_slots_of (m_ParentToChild r4) (Some 13)) }
   = Some (kMojoStatus_Ok, kMojoStatus_Ok, kMojoStatus_Ok, kMojoStatus_CouldNotAlloc,
           True, Some 13, Some [(Some 12, Some 2), (Some 11, Some 1)], [])"
  by code_simp

subsection \<open>The runs of a multimap under Remove\<close>

text \<open>Distances along the probe order.\<close>

lemma cyclic_dist_if:
  "a < n \<Longrightarrow> b < n \<Longrightarrow> cyclic_dist n a b = (if a \<le> b then b - a else b + n - a)"
  by (auto simp: cyclic_dist_def mod_if)

lemma add_mod_if:
  "a < n \<Longrightarrow> t < n \<Longrightarrow> (a + t) mod n = (if a + t < n then a + t else a + t - n)"
  for a t n :: nat
proof (cases "a + t < n")
  case True
  then show ?thesis by simp
next
  case False
  assume "a < n" "t < n"
  with False have "n \<le> a + t" "a + t - n < n" by simp_all
  then have "(a + t) mod n = a + t - n" by (simp add: le_mod_geq)
  with False show ?thesis by simp
qed

lemma cyclic_dist_less: "a < n \<Longrightarrow> b < n \<Longrightarrow> cyclic_dist n a b < n"
  by (auto simp: cyclic_dist_if)

lemma cyclic_dist_self: "a < n \<Longrightarrow> cyclic_dist n a a = 0"
  by (simp add: cyclic_dist_if)

lemma cyclic_dist_0: "a < n \<Longrightarrow> b < n \<Longrightarrow> cyclic_dist n a b = 0 \<Longrightarrow> a = b"
  by (auto simp: cyclic_dist_if split: if_splits)

lemma cyclic_dist_reach: "a < n \<Longrightarrow> b < n \<Longrightarrow> (a + cyclic_dist n a b) mod n = b"
  by (auto simp: cyclic_dist_if mod_if)

lemma cyclic_dist_step: "a < n \<Longrightarrow> t < n \<Longrightarrow> cyclic_dist n a ((a + t) mod n) = t"
  by (auto simp: cyclic_dist_if add_mod_if)

lemma cyclic_dist_advance:
  "q < n \<Longrightarrow> z < n \<Longrightarrow> t \<le> cyclic_dist n q z
   \<Longrightarrow> cyclic_dist n ((q + t) mod n) z = cyclic_dist n q z - t"
  by (auto simp: cyclic_dist_if add_mod_if split: if_splits)

lemma cyclic_dist_inj:
  "q < n \<Longrightarrow> q' < n \<Longrightarrow> z < n \<Longrightarrow> cyclic_dist n q z = cyclic_dist n q' z \<Longrightarrow> q = q'"
  by (auto simp: cyclic_dist_if split: if_splits)

lemma cyclic_dist_diff:
  "q < n \<Longrightarrow> p < n \<Longrightarrow> z < n \<Longrightarrow> cyclic_dist n p z \<le> cyclic_dist n q z
   \<Longrightarrow> cyclic_dist n q p = cyclic_dist n q z - cyclic_dist n p z"
  by (auto simp: cyclic_dist_if split: if_splits)

lemma cyclic_dist_back:
  "q < n \<Longrightarrow> p < n \<Longrightarrow> z < n \<Longrightarrow> cyclic_dist n p z \<le> cyclic_dist n q z
   \<Longrightarrow> (q + (cyclic_dist n q z - cyclic_dist n p z)) mod n = p"
  using cyclic_dist_diff[of q n p z] cyclic_dist_reach[of q n p] by simp

lemma probe_nth:
  "s < n \<Longrightarrow> t < n \<Longrightarrow> ([s ..< n] @ [0 ..< s]) ! t = (s + t) mod n"
  by (auto simp: nth_append add_mod_if)

lemma cyclic_run_Suc:
  "cyclic_run n j (Suc c) = (j mod n) # cyclic_run n ((j + 1) mod n) c"
proof -
  have "[0 ..< Suc c] = 0 # map Suc [0 ..< c]"
    by (simp add: upt_conv_Cons map_Suc_upt del: upt_Suc)
  then show ?thesis
    by (simp add: cyclic_run_def o_def mod_add_left_eq del: upt_Suc)
qed

lemma MojoMultiMap_FindLoop_find:
  assumes "m_KeyValues m = Some kvs" "\<forall>i\<in>set is. i < length kvs"
  shows "MojoMultiMap_FindLoop hit m is = Some (List.find (\<lambda>i. hit (kvs ! i)) is)"
  using assms(2)
proof (induction "is")
  case Nil
  then show ?case by simp
next
  case (Cons i "is")
  then show ?case using assms(1)
    by (auto simp: KeyValueAt_def)
qed

lemma MojoMultiMap_FindWith_find:
  assumes "m_KeyValues m = Some kvs" "m_TableCount m = n" "0 < n" "n \<le> length kvs"
  shows "MojoMultiMap_FindWith hit h m key
         = Some (case List.find (\<lambda>i. hit (kvs ! i)) ([h key mod n ..< n] @ [0 ..< h key mod n])
                 of None \<Rightarrow> 0 | Some i \<Rightarrow> i)"
proof -
  let ?s = "h key mod n"
  have s: "?s < n" using assms(3) by simp
  have 1: "MojoMultiMap_FindLoop hit m [?s ..< n]
           = Some (List.find (\<lambda>i. hit (kvs ! i)) [?s ..< n])"
    by (rule MojoMultiMap_FindLoop_find[OF assms(1)]) (use assms(4) in auto)
  have 2: "MojoMultiMap_FindLoop hit m [0 ..< ?s]
           = Some (List.find (\<lambda>i. hit (kvs ! i)) [0 ..< ?s])"
    by (rule MojoMultiMap_FindLoop_find[OF assms(1)]) (use assms(4) s in auto)
  show ?thesis
    unfolding MojoMultiMap_FindWith_def Let_def assms(2) 1 2 find_over_append
    using assms(3) by (auto split: option.splits)
qed

lemma MojoMultiMap_FindWith_first_hit:
  assumes "m_KeyValues m = Some kvs" "m_TableCount m = n" "0 < n" "n \<le> length kvs"
    and "d < n" "hit (kvs ! ((h key mod n + d) mod n))"
  shows "\<exists>t \<le> d. MojoMultiMap_FindWith hit h m key = Some ((h key mod n + t) mod n)
            \<and> hit (kvs ! ((h key mod n + t) mod n))
            \<and> (\<forall>u < t. \<not> hit (kvs ! ((h key mod n + u) mod n)))"
proof -
  let ?s = "h key mod n"
  let ?xs = "[?s ..< n] @ [0 ..< ?s]"
  let ?P = "\<lambda>i. hit (kvs ! i)"
  have s: "?s < n" using assms(3) by simp
  have len: "length ?xs = n" using s by simp
  have "?P (?xs ! d)" using assms(5,6) s by (simp add: probe_nth)
  then have "\<exists>x \<in> set ?xs. ?P x" using len assms(5) nth_mem by metis
  then obtain r where r: "List.find ?P ?xs = Some r"
    by (cases "List.find ?P ?xs") (auto simp: find_None_iff)
  then obtain t where t: "t < length ?xs" "?P (?xs ! t)" "r = ?xs ! t" "\<forall>u < t. \<not> ?P (?xs ! u)"
    unfolding find_Some_iff by blast
  have td: "t \<le> d"
  proof (rule ccontr)
    assume "\<not> t \<le> d"
    then have "d < t" by simp
    with t(4) \<open>?P (?xs ! d)\<close> show False by blast
  qed
  have nth: "\<And>u. u \<le> t \<Longrightarrow> ?xs ! u = (?s + u) mod n"
    using t(1) len s by (intro probe_nth) auto
  have "MojoMultiMap_FindWith hit h m key = Some r"
    using MojoMultiMap_FindWith_find[OF assms(1-4), of hit h key] r by simp
  with t nth td show ?thesis
    by (intro exI[of _ t]) auto
qed

text \<open>One \<^verbatim>\<open>Reinsert\<close> during \<^verbatim>\<open>FixUp\<close>: the pair moves to a slot between the hash slot of
  its key and its own slot, and the invariant of the loop holds for one slot less.\<close>

lemma MojoMultiMap_Reinsert_step:
  assumes wf: "m_KeyValues m = Some kvs" "m_TableCount m = n" "0 < n" "n \<le> length kvs"
    and j: "j < n" "fst (kvs ! j) \<noteq> None"
    and z: "z < n" "fst (kvs ! z) = None"
    and avoid: "cyclic_dist n j z \<le> cyclic_dist n (h (fst (kvs ! j)) mod n) z"
  shows "\<exists>r m'. MojoMultiMap_Reinsert h m j = Some m' \<and> m_TableCount m' = n
           \<and> m_KeyValues m' = Some (if r = j then kvs else kvs[r := kvs ! j, j := KeyValue_empty])
           \<and> r < n \<and> cyclic_dist n j z \<le> cyclic_dist n r z
           \<and> cyclic_dist n r z \<le> cyclic_dist n (h (fst (kvs ! j)) mod n) z
           \<and> (\<forall>q < n. cyclic_dist n r z < cyclic_dist n q z
                      \<and> cyclic_dist n q z \<le> cyclic_dist n (h (fst (kvs ! j)) mod n) z
                   \<longrightarrow> fst (kvs ! q) \<noteq> None)"
proof -
  let ?kv = "kvs ! j"
  let ?s = "h (fst ?kv) mod n"
  let ?hit = "\<lambda>kv :: ('a, 'b) KeyValue. fst kv = None \<or> (fst kv = fst ?kv \<and> snd kv = snd ?kv)"
  let ?d = "\<lambda>q. cyclic_dist n q z"
  have s: "?s < n" using wf(3) by simp
  have d0: "cyclic_dist n ?s j = ?d ?s - ?d j"
    using cyclic_dist_diff[OF s j(1) z(1) avoid] .
  have d0n: "cyclic_dist n ?s j < n" using cyclic_dist_less[OF s j(1)] .
  have "(?s + cyclic_dist n ?s j) mod n = j" using cyclic_dist_reach[OF s j(1)] .
  then have hitj: "?hit (kvs ! ((?s + cyclic_dist n ?s j) mod n))" by simp
  from MojoMultiMap_FindWith_first_hit[OF wf d0n, of ?hit h "fst ?kv", OF hitj]
  obtain t where t: "t \<le> cyclic_dist n ?s j"
    and found: "MojoMultiMap_FindWith ?hit h m (fst ?kv) = Some ((?s + t) mod n)"
    and nohit: "\<forall>u < t. \<not> ?hit (kvs ! ((?s + u) mod n))"
    by blast
  let ?r = "(?s + t) mod n"
  have r: "?r < n" using wf(3) by simp
  have ts: "t \<le> ?d ?s" using t d0 by simp
  have dr: "?d ?r = ?d ?s - t" using cyclic_dist_advance[OF s z(1) ts] .
  have dr1: "?d j \<le> ?d ?r" using dr t d0 avoid by simp
  have dr2: "?d ?r \<le> ?d ?s" using dr by simp
  have between: "\<forall>q < n. ?d ?r < ?d q \<and> ?d q \<le> ?d ?s \<longrightarrow> fst (kvs ! q) \<noteq> None"
  proof (intro allI impI)
    fix q assume q: "q < n" and b: "?d ?r < ?d q \<and> ?d q \<le> ?d ?s"
    then have u: "?d ?s - ?d q < t" using dr by arith
    have "(?s + (?d ?s - ?d q)) mod n = q"
      using cyclic_dist_back[OF s q z(1)] b by simp
    with nohit u show "fst (kvs ! q) \<noteq> None" by force
  qed
  have kvj: "KeyValueAt m j = Some ?kv" using wf j(1) by (simp add: KeyValueAt_def)
  have fe: "MojoMultiMap_FindEmptyOrMatchingPair h m (fst ?kv) (snd ?kv) = Some ?r"
    using found by (simp add: MojoMultiMap_FindEmptyOrMatchingPair_def)
  show ?thesis
  proof (cases "?r = j")
    case True
    then have "MojoMultiMap_Reinsert h m j = Some m"
      using kvj fe by (simp add: MojoMultiMap_Reinsert_def)
    with True wf r dr1 dr2 between show ?thesis
      by (intro exI[of _ ?r] exI[of _ m]) simp
  next
    case False
    let ?m1 = "m\<lparr>m_KeyValues := Some (kvs[?r := ?kv])\<rparr>"
    let ?m2 = "?m1\<lparr>m_KeyValues := Some (kvs[?r := ?kv, j := KeyValue_empty])\<rparr>"
    have 1: "SetKeyValueAt m ?r ?kv = Some ?m1"
      using wf r by (simp add: SetKeyValueAt_def)
    have 2: "SetKeyValueAt ?m1 j KeyValue_empty = Some ?m2"
      using wf j(1) by (simp add: SetKeyValueAt_def)
    have "MojoMultiMap_Reinsert h m j = Some ?m2"
      using kvj fe False 1 2 by (simp add: MojoMultiMap_Reinsert_def)
    moreover have "m_TableCount ?m2 = n" using wf by simp
    moreover have "m_KeyValues ?m2 = Some (if ?r = j then kvs else kvs[?r := ?kv, j := KeyValue_empty])"
      using False by simp
    ultimately show ?thesis using r dr1 dr2 between
      by (intro exI[of _ ?r] exI[of _ ?m2]) blast
  qed
qed

lemma MojoMultiMap_fixup_inv_skip:
  assumes inv: "MojoMultiMap_fixup_inv h n z kvs (Suc c)"
    and j: "j < n" "cyclic_dist n j z = c" "fst (kvs ! j) = None"
  shows "MojoMultiMap_fixup_inv h n z kvs c"
proof -
  have z: "z < n" using inv by (simp add: MojoMultiMap_fixup_inv_def)
  have "\<And>p. p < n \<Longrightarrow> fst (kvs ! p) \<noteq> None \<Longrightarrow> c \<le> cyclic_dist n p z \<Longrightarrow> Suc c \<le> cyclic_dist n p z"
  proof -
    fix p assume p: "p < n" "fst (kvs ! p) \<noteq> None" "c \<le> cyclic_dist n p z"
    have "cyclic_dist n p z \<noteq> c"
    proof
      assume "cyclic_dist n p z = c"
      with cyclic_dist_inj[OF p(1) j(1) z] j(2) have "p = j" by simp
      with p(2) j(3) show False by simp
    qed
    with p(3) show "Suc c \<le> cyclic_dist n p z" by simp
  qed
  with inv show ?thesis
    unfolding MojoMultiMap_fixup_inv_def by blast
qed

lemma MojoMultiMap_fixup_inv_move:
  assumes inv: "MojoMultiMap_fixup_inv h n z kvs (Suc c)"
    and len: "n \<le> length kvs"
    and j: "j < n" "cyclic_dist n j z = c" "fst (kvs ! j) \<noteq> None"
    and r: "r < n" "c \<le> cyclic_dist n r z"
      "cyclic_dist n r z \<le> cyclic_dist n (h (fst (kvs ! j)) mod n) z"
      "\<forall>q < n. cyclic_dist n r z < cyclic_dist n q z
                \<and> cyclic_dist n q z \<le> cyclic_dist n (h (fst (kvs ! j)) mod n) z
             \<longrightarrow> fst (kvs ! q) \<noteq> None"
  shows "MojoMultiMap_fixup_inv h n z
           (if r = j then kvs else kvs[r := kvs ! j, j := KeyValue_empty]) c"
proof -
  let ?d = "\<lambda>q. cyclic_dist n q z"
  let ?s = "\<lambda>kv :: ('a, 'b) KeyValue. h (fst kv) mod n"
  have z: "z < n" "fst (kvs ! z) = None"
    and avoid: "\<And>p. p < n \<Longrightarrow> fst (kvs ! p) \<noteq> None \<Longrightarrow> ?d p \<le> ?d (?s (kvs ! p))"
    and chain: "\<And>p q. p < n \<Longrightarrow> fst (kvs ! p) \<noteq> None \<Longrightarrow> Suc c \<le> ?d p \<Longrightarrow> q < n
                 \<Longrightarrow> ?d p < ?d q \<Longrightarrow> ?d q \<le> ?d (?s (kvs ! p)) \<Longrightarrow> fst (kvs ! q) \<noteq> None"
    using inv unfolding MojoMultiMap_fixup_inv_def by blast+
  have up: "\<And>p. p < n \<Longrightarrow> fst (kvs ! p) \<noteq> None \<Longrightarrow> c \<le> ?d p \<Longrightarrow> p \<noteq> j \<Longrightarrow> Suc c \<le> ?d p"
  proof -
    fix p assume p: "p < n" "fst (kvs ! p) \<noteq> None" "c \<le> ?d p" "p \<noteq> j"
    have "?d p \<noteq> c"
    proof
      assume "?d p = c"
      with cyclic_dist_inj[OF p(1) j(1) z(1)] j(2) p(4) show False by simp
    qed
    with p(3) show "Suc c \<le> ?d p" by simp
  qed
  show ?thesis
  proof (cases "r = j")
    case True
    have "MojoMultiMap_fixup_inv h n z kvs c"
      unfolding MojoMultiMap_fixup_inv_def
    proof (intro conjI allI impI)
      show "z < n" "fst (kvs ! z) = None" using z by simp_all
    next
      fix p assume "p < n" "fst (kvs ! p) \<noteq> None"
      then show "?d p \<le> ?d (?s (kvs ! p))" by (rule avoid)
    next
      fix p q assume p: "p < n" "fst (kvs ! p) \<noteq> None \<and> c \<le> ?d p"
        and q: "q < n" "?d p < ?d q \<and> ?d q \<le> ?d (?s (kvs ! p))"
      show "fst (kvs ! q) \<noteq> None"
      proof (cases "p = j")
        case True
        with r(4) q \<open>r = j\<close> show ?thesis by simp
      next
        case False
        from up[OF p(1) _ _ False] p(2) have "Suc c \<le> ?d p" by simp
        from chain[OF p(1) _ this q(1)] p(2) q(2) show ?thesis by simp
      qed
    qed
    with True show ?thesis by simp
  next
    case False
    let ?kvs' = "kvs[r := kvs ! j, j := KeyValue_empty]"
    have nth: "\<And>p. p < n \<Longrightarrow> ?kvs' ! p = (if p = j then KeyValue_empty
                                          else if p = r then kvs ! j else kvs ! p)"
      using len by (simp add: nth_list_update)
    have rc: "Suc c \<le> ?d r" using up[OF r(1) _ r(2) False] r j
    proof -
      have "?d r \<noteq> c"
      proof
        assume "?d r = c"
        with cyclic_dist_inj[OF r(1) j(1) z(1)] j(2) False show False by simp
      qed
      with r(2) show ?thesis by simp
    qed
    have zr: "z \<noteq> r" using rc cyclic_dist_self[OF z(1)] by auto
    have zj: "z \<noteq> j" using z(2) j(3) by auto
    have "MojoMultiMap_fixup_inv h n z ?kvs' c"
      unfolding MojoMultiMap_fixup_inv_def
    proof (intro conjI allI impI)
      show "z < n" using z by simp
      show "fst (?kvs' ! z) = None" using nth[OF z(1)] zr zj z(2) by simp
    next
      fix p assume p: "p < n" "fst (?kvs' ! p) \<noteq> None"
      then have pj: "p \<noteq> j" using nth[OF p(1)] by (auto simp: KeyValue_empty_def)
      show "?d p \<le> ?d (?s (?kvs' ! p))"
      proof (cases "p = r")
        case True
        with nth[OF p(1)] pj r(3) show ?thesis by simp
      next
        case False
        with nth[OF p(1)] pj p(2) avoid[OF p(1)] show ?thesis by simp
      qed
    next
      fix p q assume p: "p < n" "fst (?kvs' ! p) \<noteq> None \<and> c \<le> ?d p"
        and q: "q < n" "?d p < ?d q \<and> ?d q \<le> ?d (?s (?kvs' ! p))"
      have pj: "p \<noteq> j" using nth[OF p(1)] p(2) by (auto simp: KeyValue_empty_def)
      have qj: "q \<noteq> j" using q(2) p(2) j(2) by auto
      show "fst (?kvs' ! q) \<noteq> None"
      proof (cases "q = r")
        case True
        with nth[OF q(1)] qj j(3) show ?thesis by simp
      next
        case qr: False
        have "fst (kvs ! q) \<noteq> None"
        proof (cases "p = r")
          case True
          with nth[OF p(1)] pj q(2) r(4) q(1) show ?thesis by simp
        next
          case False
          with nth[OF p(1)] pj have same: "?kvs' ! p = kvs ! p" by simp
          with p(2) have occ: "fst (kvs ! p) \<noteq> None" by simp
          from up[OF p(1) occ _ pj] p(2) have "Suc c \<le> ?d p" by simp
          from chain[OF p(1) occ this q(1)] q(2) same show ?thesis by simp
        qed
        with nth[OF q(1)] qj qr show ?thesis by simp
      qed
    qed
    with False show ?thesis by simp
  qed
qed

text \<open>\<^verbatim>\<open>FixUp\<close> visits the \<open>count\<close> slots that follow \<open>index\<close>, and the \<^verbatim>\<open>while\<close> loop of the
  removal stops at the first empty slot after \<open>index\<close>.\<close>

lemma MojoMultiMap_ReinsertEach_fixup:
  assumes n: "0 < n"
  shows "m_KeyValues m = Some kvs \<Longrightarrow> m_TableCount m = n \<Longrightarrow> n \<le> length kvs
    \<Longrightarrow> MojoMultiMap_fixup_inv h n z kvs c
    \<Longrightarrow> (0 < c \<longrightarrow> j < n \<and> Suc (cyclic_dist n j z) = c)
    \<Longrightarrow> \<exists>m' kvs'. MojoMultiMap_ReinsertEach h m (cyclic_run n j c) = Some m'
          \<and> m_KeyValues m' = Some kvs' \<and> m_TableCount m' = n \<and> length kvs' = length kvs
          \<and> MojoMultiMap_fixup_inv h n z kvs' 0"
proof (induction c arbitrary: m kvs j)
  case 0
  then show ?case by (simp add: cyclic_run_def)
next
  case (Suc c)
  from Suc.prems(5) have j: "j < n" and dj: "cyclic_dist n j z = c" by simp_all
  have z: "z < n" "fst (kvs ! z) = None"
    using Suc.prems(4) by (simp_all add: MojoMultiMap_fixup_inv_def)
  have run: "cyclic_run n j (Suc c) = j # cyclic_run n ((j + 1) mod n) c"
    using j by (simp add: cyclic_run_Suc)
  have kvj: "KeyValueAt m j = Some (kvs ! j)"
    using Suc.prems(1,3) j by (simp add: KeyValueAt_def)
  have nxt: "0 < c \<longrightarrow> (j + 1) mod n < n \<and> Suc (cyclic_dist n ((j + 1) mod n) z) = c"
  proof
    assume "0 < c"
    then have "1 \<le> cyclic_dist n j z" using dj by simp
    from cyclic_dist_advance[OF j z(1) this] dj \<open>0 < c\<close> n
    show "(j + 1) mod n < n \<and> Suc (cyclic_dist n ((j + 1) mod n) z) = c" by simp
  qed
  show ?case
  proof (cases "fst (kvs ! j) = None")
    case True
    have inv: "MojoMultiMap_fixup_inv h n z kvs c"
      using MojoMultiMap_fixup_inv_skip[OF Suc.prems(4) j dj True] .
    from Suc.IH[OF Suc.prems(1,2,3) inv nxt] True kvj run show ?thesis by simp
  next
    case False
    have avoid: "cyclic_dist n j z \<le> cyclic_dist n (h (fst (kvs ! j)) mod n) z"
      using Suc.prems(4) j False unfolding MojoMultiMap_fixup_inv_def by blast
    from MojoMultiMap_Reinsert_step[where h = h and m = m and kvs = kvs and n = n and j = j and z = z,
           OF Suc.prems(1,2) n Suc.prems(3) j False z avoid]
    obtain r m1 where r: "MojoMultiMap_Reinsert h m j = Some m1" "m_TableCount m1 = n"
      "m_KeyValues m1 = Some (if r = j then kvs else kvs[r := kvs ! j, j := KeyValue_empty])"
      "r < n" "cyclic_dist n j z \<le> cyclic_dist n r z"
      "cyclic_dist n r z \<le> cyclic_dist n (h (fst (kvs ! j)) mod n) z"
      "\<forall>q < n. cyclic_dist n r z < cyclic_dist n q z
                \<and> cyclic_dist n q z \<le> cyclic_dist n (h (fst (kvs ! j)) mod n) z
             \<longrightarrow> fst (kvs ! q) \<noteq> None"
      by blast
    let ?kvs1 = "if r = j then kvs else kvs[r := kvs ! j, j := KeyValue_empty]"
    have rc: "c \<le> cyclic_dist n r z" using r(5) dj by simp
    have inv: "MojoMultiMap_fixup_inv h n z ?kvs1 c"
      using MojoMultiMap_fixup_inv_move[OF Suc.prems(4,3) j dj False r(4) rc r(6,7)] .
    have len: "length ?kvs1 = length kvs" by simp
    then have len': "n \<le> length ?kvs1" using Suc.prems(3) by simp
    from Suc.IH[OF r(3,2) len' inv nxt]
    obtain m' kvs' where "MojoMultiMap_ReinsertEach h m1 (cyclic_run n ((j + 1) mod n) c) = Some m'"
      "m_KeyValues m' = Some kvs'" "m_TableCount m' = n" "length kvs' = length ?kvs1"
      "MojoMultiMap_fixup_inv h n z kvs' 0"
      by blast
    with False kvj run r(1) len show ?thesis by (simp del: not_None_eq)
  qed
qed

lemma MojoMultiMap_FixUpLoop_ReinsertEach:
  "MojoMultiMap_FixUpLoop h m is c
   = map_option (\<lambda>m'. (m', c - length is, c < length is))
       (MojoMultiMap_ReinsertEach h m (take c is))"
proof (induction "is" arbitrary: m c)
  case Nil
  show ?case by simp
next
  case (Cons i "is")
  show ?case
  proof (cases c)
    case 0
    then show ?thesis by simp
  next
    case (Suc c')
    show ?thesis
    proof (cases "KeyValueAt m i")
      case None
      with Suc show ?thesis by simp
    next
      case (Some kv)
      show ?thesis
      proof (cases "fst kv = None")
        case True
        with Some Suc Cons.IH[of m c'] show ?thesis by simp
      next
        case False
        show ?thesis
        proof (cases "MojoMultiMap_Reinsert h m i")
          case None
          with False Some Suc show ?thesis by (simp del: not_None_eq)
        next
          case (Some m')
          with False \<open>KeyValueAt m i = Some kv\<close> Suc Cons.IH[of m' c'] show ?thesis
            by (simp del: not_None_eq)
        qed
      qed
    qed
  qed
qed

lemma MojoMultiMap_ReinsertEach_append:
  "MojoMultiMap_ReinsertEach h m (xs @ ys)
   = (case MojoMultiMap_ReinsertEach h m xs of
        None \<Rightarrow> None
      | Some m' \<Rightarrow> MojoMultiMap_ReinsertEach h m' ys)"
proof (induction xs arbitrary: m)
  case Nil
  show ?case by simp
next
  case (Cons i xs)
  show ?case
  proof (cases "KeyValueAt m i")
    case None
    then show ?thesis by simp
  next
    case (Some kv)
    show ?thesis
    proof (cases "fst kv = None")
      case True
      with Some Cons.IH[of m] show ?thesis by simp
    next
      case False
      show ?thesis
      proof (cases "MojoMultiMap_Reinsert h m i")
        case None
        with False Some show ?thesis by (simp del: not_None_eq)
      next
        case (Some m')
        with False \<open>KeyValueAt m i = Some kv\<close> Cons.IH[of m'] show ?thesis
          by (simp del: not_None_eq)
      qed
    qed
  qed
qed

lemma MojoMultiMap_FixUp_ReinsertEach:
  "MojoMultiMap_FixUp h m index c
   = MojoMultiMap_ReinsertEach h m (take c ([index + 1 ..< m_TableCount m] @ [0 ..< index]))"
proof -
  let ?is1 = "[index + 1 ..< m_TableCount m]"
  let ?is2 = "[0 ..< index]"
  have tk: "take c (?is1 @ ?is2) = take c ?is1 @ take (c - length ?is1) ?is2" by simp
  show ?thesis
  proof (cases "MojoMultiMap_ReinsertEach h m (take c ?is1)")
    case None
    then show ?thesis
      unfolding tk MojoMultiMap_ReinsertEach_append
      by (simp add: MojoMultiMap_FixUp_def MojoMultiMap_FixUpLoop_ReinsertEach)
  next
    case (Some m1)
    show ?thesis
    proof (cases "c < length ?is1")
      case True
      with Some show ?thesis
        unfolding tk MojoMultiMap_ReinsertEach_append
        by (simp add: MojoMultiMap_FixUp_def MojoMultiMap_FixUpLoop_ReinsertEach)
    next
      case False
      with Some show ?thesis
        unfolding tk MojoMultiMap_ReinsertEach_append
        by (cases "MojoMultiMap_ReinsertEach h m1 (take (c - length ?is1) ?is2)")
           (simp_all add: MojoMultiMap_FixUp_def MojoMultiMap_FixUpLoop_ReinsertEach)
    qed
  qed
qed

lemma take_probe_cyclic_run:
  assumes "index < n" "c < n"
  shows "take c ([index + 1 ..< n] @ [0 ..< index]) = cyclic_run n ((index + 1) mod n) c"
proof (rule nth_equalityI)
  show "length (take c ([index + 1 ..< n] @ [0 ..< index])) = length (cyclic_run n ((index + 1) mod n) c)"
    using assms by (simp add: cyclic_run_def)
next
  fix t assume "t < length (take c ([index + 1 ..< n] @ [0 ..< index]))"
  then have t: "t < c" by simp
  then have tn: "t < n" using assms(2) by simp
  have s: "(index + 1) mod n < n" using assms(1) by simp
  have "cyclic_run n ((index + 1) mod n) c ! t = ((index + 1) mod n + t) mod n"
    using t by (simp add: cyclic_run_def)
  also have "\<dots> = (index + 1 + t) mod n" by (simp add: mod_add_left_eq)
  finally have rhs: "cyclic_run n ((index + 1) mod n) c ! t = (index + 1 + t) mod n" .
  have lhs: "take c ([index + 1 ..< n] @ [0 ..< index]) ! t
             = (if t < n - (index + 1) then index + 1 + t else t - (n - (index + 1)))"
    using t assms by (auto simp: nth_append)
  have "(index + 1 + t) mod n = (if t < n - (index + 1) then index + 1 + t else t - (n - (index + 1)))"
  proof (cases "t < n - (index + 1)")
    case True
    then show ?thesis by simp
  next
    case False
    then have "n \<le> index + 1 + t" "index + 1 + t - n < n" using assms tn by simp_all
    then have "(index + 1 + t) mod n = index + 1 + t - n" by (simp add: le_mod_geq)
    with False assms show ?thesis by simp
  qed
  with lhs rhs show "take c ([index + 1 ..< n] @ [0 ..< index]) ! t
                     = cyclic_run n ((index + 1) mod n) c ! t" by simp
qed

lemma MojoMultiMap_ClearRun_run:
  assumes n: "0 < n" and z: "z < n"
  shows "m_KeyValues m = Some kvs \<Longrightarrow> m_TableCount m = n \<Longrightarrow> n \<le> length kvs
    \<Longrightarrow> i < n \<Longrightarrow> cyclic_dist n i z = d \<Longrightarrow> fst (kvs ! z) = None
    \<Longrightarrow> (\<forall>q < n. 0 < cyclic_dist n q z \<and> cyclic_dist n q z \<le> d \<longrightarrow> fst (kvs ! q) \<noteq> None)
    \<Longrightarrow> \<exists>m' kvs'. MojoMultiMap_ClearRun doomed m i cnt = Some (m', cnt + d)
          \<and> m_KeyValues m' = Some kvs' \<and> m_TableCount m' = n \<and> length kvs' = length kvs
          \<and> (\<forall>q < n. kvs' ! q =
                (if 0 < cyclic_dist n q z \<and> cyclic_dist n q z \<le> d \<and> doomed (kvs ! q)
                 then KeyValue_empty else kvs ! q))"
proof (induction d arbitrary: m kvs i cnt)
  case 0
  then have "i = z" using cyclic_dist_0[OF \<open>i < n\<close> z] by simp
  with 0 have "KeyValueAt m i = Some (kvs ! z)" "fst (kvs ! z) = None"
    using z by (simp_all add: KeyValueAt_def)
  then have "MojoMultiMap_ClearRun doomed m i cnt = Some (m, cnt)"
    by (subst MojoMultiMap_ClearRun.simps) simp
  with 0 show ?case by auto
next
  case (Suc d)
  let ?i' = "(i + 1) mod n"
  have i: "i < n" by fact
  have occ: "fst (kvs ! i) \<noteq> None" using Suc.prems(4,5,7) by simp
  have kvi: "KeyValueAt m i = Some (kvs ! i)"
    using Suc.prems(1,3) i by (simp add: KeyValueAt_def)
  have i': "?i' < n" using n by simp
  have "1 \<le> cyclic_dist n i z" using Suc.prems(5) by simp
  from cyclic_dist_advance[OF i z this] Suc.prems(5)
  have di': "cyclic_dist n ?i' z = d" by simp
  have iz: "i \<noteq> z" using occ Suc.prems(6) by auto
  have other: "\<And>q. q < n \<Longrightarrow> q \<noteq> i \<Longrightarrow> cyclic_dist n q z \<noteq> Suc d"
    using cyclic_dist_inj[OF _ i z] Suc.prems(5) by auto
  show ?case
  proof (cases "doomed (kvs ! i)")
    case True
    let ?kvs1 = "kvs[i := KeyValue_empty]"
    let ?m1 = "m\<lparr>m_KeyValues := Some ?kvs1\<rparr>"
    let ?m2 = "?m1\<lparr>m_ActiveCount := m_ActiveCount ?m1 - 1\<rparr>"
    have set1: "SetKeyValueAt m i KeyValue_empty = Some ?m1"
      using Suc.prems(1,3) i by (simp add: SetKeyValueAt_def)
    have step: "MojoMultiMap_ClearRun doomed m i cnt
                = MojoMultiMap_ClearRun doomed ?m2 ?i' (cnt + 1)"
      using kvi occ True set1 n Suc.prems(2)
      by (subst MojoMultiMap_ClearRun.simps) (simp del: not_None_eq)
    have a: "m_KeyValues ?m2 = Some ?kvs1" by simp
    have b: "m_TableCount ?m2 = n" using Suc.prems(2) by simp
    have c: "n \<le> length ?kvs1" using Suc.prems(3) by simp
    have e: "fst (?kvs1 ! z) = None" using iz Suc.prems(6) by simp
    have f: "\<forall>q < n. 0 < cyclic_dist n q z \<and> cyclic_dist n q z \<le> d \<longrightarrow> fst (?kvs1 ! q) \<noteq> None"
    proof (intro allI impI)
      fix q assume q: "q < n" "0 < cyclic_dist n q z \<and> cyclic_dist n q z \<le> d"
      then have "q \<noteq> i" using Suc.prems(5) by auto
      with q Suc.prems(7) show "fst (?kvs1 ! q) \<noteq> None" by simp
    qed
    from Suc.IH[OF a b c i' di' e f, of "cnt + 1"]
    obtain m' kvs' where r: "MojoMultiMap_ClearRun doomed ?m2 ?i' (cnt + 1) = Some (m', cnt + 1 + d)"
      "m_KeyValues m' = Some kvs'" "m_TableCount m' = n" "length kvs' = length ?kvs1"
      "\<forall>q < n. kvs' ! q =
          (if 0 < cyclic_dist n q z \<and> cyclic_dist n q z \<le> d \<and> doomed (?kvs1 ! q)
           then KeyValue_empty else ?kvs1 ! q)"
      by blast
    have "\<forall>q < n. kvs' ! q =
          (if 0 < cyclic_dist n q z \<and> cyclic_dist n q z \<le> Suc d \<and> doomed (kvs ! q)
           then KeyValue_empty else kvs ! q)"
    proof (intro allI impI)
      fix q assume q: "q < n"
      show "kvs' ! q = (if 0 < cyclic_dist n q z \<and> cyclic_dist n q z \<le> Suc d \<and> doomed (kvs ! q)
                        then KeyValue_empty else kvs ! q)"
      proof (cases "q = i")
        case True
        with r(5) q Suc.prems(3,5) \<open>doomed (kvs ! i)\<close> show ?thesis by simp
      next
        case False
        with other[OF q] have "cyclic_dist n q z \<noteq> Suc d" by simp
        then have "cyclic_dist n q z \<le> Suc d \<longleftrightarrow> cyclic_dist n q z \<le> d" by auto
        with r(5) q False show ?thesis by simp
      qed
    qed
    with step r(1-4) show ?thesis by simp
  next
    case False
    have step: "MojoMultiMap_ClearRun doomed m i cnt
                = MojoMultiMap_ClearRun doomed m ?i' (cnt + 1)"
      using kvi occ False n Suc.prems(2)
      by (subst MojoMultiMap_ClearRun.simps) (simp del: not_None_eq)
    have f: "\<forall>q < n. 0 < cyclic_dist n q z \<and> cyclic_dist n q z \<le> d \<longrightarrow> fst (kvs ! q) \<noteq> None"
      using Suc.prems(7) by auto
    from Suc.IH[OF Suc.prems(1,2,3) i' di' Suc.prems(6) f, of "cnt + 1"]
    obtain m' kvs' where r: "MojoMultiMap_ClearRun doomed m ?i' (cnt + 1) = Some (m', cnt + 1 + d)"
      "m_KeyValues m' = Some kvs'" "m_TableCount m' = n" "length kvs' = length kvs"
      "\<forall>q < n. kvs' ! q =
          (if 0 < cyclic_dist n q z \<and> cyclic_dist n q z \<le> d \<and> doomed (kvs ! q)
           then KeyValue_empty else kvs ! q)"
      by blast
    have "\<forall>q < n. kvs' ! q =
          (if 0 < cyclic_dist n q z \<and> cyclic_dist n q z \<le> Suc d \<and> doomed (kvs ! q)
           then KeyValue_empty else kvs ! q)"
    proof (intro allI impI)
      fix q assume q: "q < n"
      show "kvs' ! q = (if 0 < cyclic_dist n q z \<and> cyclic_dist n q z \<le> Suc d \<and> doomed (kvs ! q)
                        then KeyValue_empty else kvs ! q)"
      proof (cases "q = i")
        case True
        with r(5) q Suc.prems(5) \<open>\<not> doomed (kvs ! i)\<close> show ?thesis by simp
      next
        case False
        with other[OF q] have "cyclic_dist n q z \<noteq> Suc d" by simp
        then have "cyclic_dist n q z \<le> Suc d \<longleftrightarrow> cyclic_dist n q z \<le> d" by auto
        with r(5) q show ?thesis by simp
      qed
    qed
    with step r(1-4) show ?thesis by simp
  qed
qed

text \<open>The invariant of the loop at its two ends: before the first slot is cleared, and
  when no slot is left to visit.\<close>

lemma MojoMultiMap_occupied_nth:
  "m_KeyValues m = Some kvs \<Longrightarrow> i < length kvs
   \<Longrightarrow> MojoMultiMap_occupied m i \<longleftrightarrow> fst (kvs ! i) \<noteq> None"
  by (simp add: MojoMultiMap_occupied_def KeyValueAt_def)

lemma MojoMultiMap_probe_inv_iff:
  assumes "m_KeyValues m = Some kvs" "m_TableCount m = n" "0 < n" "n \<le> length kvs"
  shows "MojoMultiMap_probe_inv h m \<longleftrightarrow>
         (\<forall>p < n. fst (kvs ! p) \<noteq> None \<longrightarrow>
            (\<forall>t < cyclic_dist n (h (fst (kvs ! p)) mod n) p.
               fst (kvs ! ((h (fst (kvs ! p)) mod n + t) mod n)) \<noteq> None))"
proof -
  have occ: "\<And>i. i < n \<Longrightarrow> MojoMultiMap_occupied m i \<longleftrightarrow> fst (kvs ! i) \<noteq> None"
    using MojoMultiMap_occupied_nth[OF assms(1)] assms(4) by simp
  have pb: "\<And>p. p < n \<Longrightarrow> MojoMultiMap_probed_before h m p
              = cyclic_run n (h (fst (kvs ! p)) mod n) (cyclic_dist n (h (fst (kvs ! p)) mod n) p)"
    using assms by (simp add: MojoMultiMap_probed_before_def KeyValueAt_def Let_def)
  have inner: "\<And>p. p < n \<Longrightarrow>
      list_all (MojoMultiMap_occupied m) (MojoMultiMap_probed_before h m p)
      \<longleftrightarrow> (\<forall>t < cyclic_dist n (h (fst (kvs ! p)) mod n) p.
               fst (kvs ! ((h (fst (kvs ! p)) mod n + t) mod n)) \<noteq> None)"
  proof -
    fix p assume p: "p < n"
    have "\<And>t. MojoMultiMap_occupied m ((h (fst (kvs ! p)) mod n + t) mod n)
               \<longleftrightarrow> fst (kvs ! ((h (fst (kvs ! p)) mod n + t) mod n)) \<noteq> None"
      using occ assms(3) by simp
    then show "list_all (MojoMultiMap_occupied m) (MojoMultiMap_probed_before h m p)
      \<longleftrightarrow> (\<forall>t < cyclic_dist n (h (fst (kvs ! p)) mod n) p.
               fst (kvs ! ((h (fst (kvs ! p)) mod n + t) mod n)) \<noteq> None)"
      unfolding pb[OF p] by (auto simp: cyclic_run_def list_all_iff)
  qed
  show ?thesis
    unfolding MojoMultiMap_probe_inv_def using assms occ inner
    by (simp add: list_all_iff Ball_def)
qed

lemma MojoMultiMap_has_empty_iff:
  assumes "m_KeyValues m = Some kvs" "m_TableCount m = n" "n \<le> length kvs"
  shows "MojoMultiMap_has_empty m \<longleftrightarrow> (\<exists>z < n. fst (kvs ! z) = None)"
proof -
  have occ: "\<And>i. i < n \<Longrightarrow> MojoMultiMap_occupied m i \<longleftrightarrow> fst (kvs ! i) \<noteq> None"
    using MojoMultiMap_occupied_nth[OF assms(1)] assms(3) by simp
  show ?thesis
    unfolding MojoMultiMap_has_empty_def using assms(2) occ
    by (auto simp: list_ex_iff)
qed

lemma probe_path_avoids:
  assumes "z < n" "p < n" "s < n" "\<not> P z"
    and "\<forall>t < cyclic_dist n s p. P ((s + t) mod n)"
  shows "cyclic_dist n p z \<le> cyclic_dist n s z"
proof (rule ccontr)
  assume a: "\<not> cyclic_dist n p z \<le> cyclic_dist n s z"
  let ?t = "cyclic_dist n s p"
  have "\<not> ?t \<le> cyclic_dist n s z"
  proof
    assume le: "?t \<le> cyclic_dist n s z"
    from cyclic_dist_advance[OF assms(3,1) le] cyclic_dist_reach[OF assms(3,2)]
    have "cyclic_dist n p z = cyclic_dist n s z - ?t" by simp
    with a show False by simp
  qed
  then have "cyclic_dist n s z < ?t" by simp
  with assms(5) have "P ((s + cyclic_dist n s z) mod n)" by blast
  with cyclic_dist_reach[OF assms(3,1)] assms(4) show False by simp
qed

lemma probe_path_iff:
  assumes "z < n" "p < n" "s < n" "cyclic_dist n p z \<le> cyclic_dist n s z"
  shows "(\<forall>t < cyclic_dist n s p. P ((s + t) mod n))
         \<longleftrightarrow> (\<forall>q < n. cyclic_dist n p z < cyclic_dist n q z
                        \<and> cyclic_dist n q z \<le> cyclic_dist n s z \<longrightarrow> P q)"
proof
  assume L: "\<forall>t < cyclic_dist n s p. P ((s + t) mod n)"
  show "\<forall>q < n. cyclic_dist n p z < cyclic_dist n q z
               \<and> cyclic_dist n q z \<le> cyclic_dist n s z \<longrightarrow> P q"
  proof (intro allI impI)
    fix q assume q: "q < n"
      and b: "cyclic_dist n p z < cyclic_dist n q z \<and> cyclic_dist n q z \<le> cyclic_dist n s z"
    have "cyclic_dist n s p = cyclic_dist n s z - cyclic_dist n p z"
      using cyclic_dist_diff[OF assms(3,2,1,4)] .
    with b have "cyclic_dist n s z - cyclic_dist n q z < cyclic_dist n s p" by arith
    with L have "P ((s + (cyclic_dist n s z - cyclic_dist n q z)) mod n)" by blast
    moreover have "(s + (cyclic_dist n s z - cyclic_dist n q z)) mod n = q"
      using cyclic_dist_back[OF assms(3) q assms(1)] b by simp
    ultimately show "P q" by simp
  qed
next
  assume R: "\<forall>q < n. cyclic_dist n p z < cyclic_dist n q z
                   \<and> cyclic_dist n q z \<le> cyclic_dist n s z \<longrightarrow> P q"
  show "\<forall>t < cyclic_dist n s p. P ((s + t) mod n)"
  proof (intro allI impI)
    fix t assume t: "t < cyclic_dist n s p"
    have sp: "cyclic_dist n s p = cyclic_dist n s z - cyclic_dist n p z"
      using cyclic_dist_diff[OF assms(3,2,1,4)] .
    with t have le: "t \<le> cyclic_dist n s z" by simp
    have d: "cyclic_dist n ((s + t) mod n) z = cyclic_dist n s z - t"
      using cyclic_dist_advance[OF assms(3,1) le] .
    have "(s + t) mod n < n" using assms(3) by simp
    moreover have "cyclic_dist n p z < cyclic_dist n ((s + t) mod n) z
                   \<and> cyclic_dist n ((s + t) mod n) z \<le> cyclic_dist n s z"
      using d t sp assms(4) by arith
    ultimately show "P ((s + t) mod n)" using R by blast
  qed
qed

lemma MojoMultiMap_fixup_inv_chain:
  assumes "MojoMultiMap_fixup_inv h n z kvs c"
    and "p < n" "fst (kvs ! p) \<noteq> None" "c \<le> cyclic_dist n p z"
    and "q < n" "cyclic_dist n p z < cyclic_dist n q z"
      "cyclic_dist n q z \<le> cyclic_dist n (h (fst (kvs ! p)) mod n) z"
  shows "fst (kvs ! q) \<noteq> None"
  using assms unfolding MojoMultiMap_fixup_inv_def by blast

lemma MojoMultiMap_fixup_inv_avoid:
  assumes "MojoMultiMap_fixup_inv h n z kvs c" and "p < n" "fst (kvs ! p) \<noteq> None"
  shows "cyclic_dist n p z \<le> cyclic_dist n (h (fst (kvs ! p)) mod n) z"
  using assms unfolding MojoMultiMap_fixup_inv_def by blast

lemma MojoMultiMap_fixup_inv_0_iff:
  assumes "0 < n" "z < n" "fst (kvs ! z) = None"
  shows "MojoMultiMap_fixup_inv h n z kvs 0 \<longleftrightarrow>
         (\<forall>p < n. fst (kvs ! p) \<noteq> None \<longrightarrow>
            (\<forall>t < cyclic_dist n (h (fst (kvs ! p)) mod n) p.
               fst (kvs ! ((h (fst (kvs ! p)) mod n + t) mod n)) \<noteq> None))"
proof
  assume inv: "MojoMultiMap_fixup_inv h n z kvs 0"
  show "\<forall>p < n. fst (kvs ! p) \<noteq> None \<longrightarrow>
            (\<forall>t < cyclic_dist n (h (fst (kvs ! p)) mod n) p.
               fst (kvs ! ((h (fst (kvs ! p)) mod n + t) mod n)) \<noteq> None)"
  proof (intro allI impI)
    fix p t assume p: "p < n" "fst (kvs ! p) \<noteq> None"
      and t: "t < cyclic_dist n (h (fst (kvs ! p)) mod n) p"
    let ?s = "h (fst (kvs ! p)) mod n"
    have s: "?s < n" using assms(1) by simp
    have av: "cyclic_dist n p z \<le> cyclic_dist n ?s z"
      using MojoMultiMap_fixup_inv_avoid[OF inv p] .
    have "\<forall>q < n. cyclic_dist n p z < cyclic_dist n q z \<and> cyclic_dist n q z \<le> cyclic_dist n ?s z
                 \<longrightarrow> fst (kvs ! q) \<noteq> None"
      using MojoMultiMap_fixup_inv_chain[OF inv p] by blast
    then have "\<forall>t < cyclic_dist n ?s p. fst (kvs ! ((?s + t) mod n)) \<noteq> None"
      by (rule probe_path_iff[OF assms(2) p(1) s av, THEN iffD2])
    with t show "fst (kvs ! ((?s + t) mod n)) \<noteq> None" by blast
  qed
next
  assume ch: "\<forall>p < n. fst (kvs ! p) \<noteq> None \<longrightarrow>
            (\<forall>t < cyclic_dist n (h (fst (kvs ! p)) mod n) p.
               fst (kvs ! ((h (fst (kvs ! p)) mod n + t) mod n)) \<noteq> None)"
  have path: "\<And>p. p < n \<Longrightarrow> fst (kvs ! p) \<noteq> None
              \<Longrightarrow> \<forall>t < cyclic_dist n (h (fst (kvs ! p)) mod n) p.
                    fst (kvs ! ((h (fst (kvs ! p)) mod n + t) mod n)) \<noteq> None"
    using ch by blast
  have av: "\<And>p. p < n \<Longrightarrow> fst (kvs ! p) \<noteq> None
              \<Longrightarrow> cyclic_dist n p z \<le> cyclic_dist n (h (fst (kvs ! p)) mod n) z"
  proof -
    fix p assume p: "p < n" "fst (kvs ! p) \<noteq> None"
    let ?s = "h (fst (kvs ! p)) mod n"
    have s: "?s < n" using assms(1) by simp
    have nz: "\<not> (fst (kvs ! z) \<noteq> None)" using assms(3) by simp
    show "cyclic_dist n p z \<le> cyclic_dist n ?s z"
      by (rule probe_path_avoids[where P = "\<lambda>q. fst (kvs ! q) \<noteq> None", OF assms(2) p(1) s nz path[OF p]])
  qed
  show "MojoMultiMap_fixup_inv h n z kvs 0"
    unfolding MojoMultiMap_fixup_inv_def
  proof (intro conjI allI impI)
    show "z < n" "fst (kvs ! z) = None" using assms by simp_all
  next
    fix p assume "p < n" "fst (kvs ! p) \<noteq> None"
    then show "cyclic_dist n p z \<le> cyclic_dist n (h (fst (kvs ! p)) mod n) z" by (rule av)
  next
    fix p q assume p: "p < n" "fst (kvs ! p) \<noteq> None \<and> 0 \<le> cyclic_dist n p z"
      and q: "q < n" "cyclic_dist n p z < cyclic_dist n q z
                      \<and> cyclic_dist n q z \<le> cyclic_dist n (h (fst (kvs ! p)) mod n) z"
    let ?s = "h (fst (kvs ! p)) mod n"
    have s: "?s < n" using assms(1) by simp
    from p have occ: "fst (kvs ! p) \<noteq> None" by blast
    have "\<forall>q < n. cyclic_dist n p z < cyclic_dist n q z \<and> cyclic_dist n q z \<le> cyclic_dist n ?s z
                 \<longrightarrow> fst (kvs ! q) \<noteq> None"
      by (rule probe_path_iff[OF assms(2) p(1) s av[OF p(1) occ], THEN iffD1]) (rule path[OF p(1) occ])
    with q show "fst (kvs ! q) \<noteq> None" by blast
  qed
qed

lemma MojoMultiMap_fixup_inv_cleared:
  assumes inv: "MojoMultiMap_fixup_inv h n z kvs 0"
    and kvs1: "\<forall>q < n. kvs1 ! q =
                (if 0 < cyclic_dist n q z \<and> cyclic_dist n q z \<le> d \<and> doomed (kvs ! q)
                 then KeyValue_empty else kvs ! q)"
  shows "MojoMultiMap_fixup_inv h n z kvs1 d"
proof -
  have z: "z < n" "fst (kvs ! z) = None"
    using inv by (simp_all add: MojoMultiMap_fixup_inv_def)
  have same: "\<And>q. q < n \<Longrightarrow> fst (kvs1 ! q) \<noteq> None \<Longrightarrow> kvs1 ! q = kvs ! q"
    using kvs1 by (auto simp: KeyValue_empty_def split: if_splits)
  have far: "\<And>q. q < n \<Longrightarrow> d < cyclic_dist n q z \<Longrightarrow> kvs1 ! q = kvs ! q"
    using kvs1 by simp
  show ?thesis
    unfolding MojoMultiMap_fixup_inv_def
  proof (intro conjI allI impI)
    show "z < n" using z by simp
    show "fst (kvs1 ! z) = None" using kvs1 z cyclic_dist_self[OF z(1)] by simp
  next
    fix p assume p: "p < n" "fst (kvs1 ! p) \<noteq> None"
    then have "fst (kvs ! p) \<noteq> None" using same[OF p] by simp
    from MojoMultiMap_fixup_inv_avoid[OF inv p(1) this] same[OF p]
    show "cyclic_dist n p z \<le> cyclic_dist n (h (fst (kvs1 ! p)) mod n) z" by simp
  next
    fix p q assume p: "p < n" "fst (kvs1 ! p) \<noteq> None \<and> d \<le> cyclic_dist n p z"
      and q: "q < n" "cyclic_dist n p z < cyclic_dist n q z
                      \<and> cyclic_dist n q z \<le> cyclic_dist n (h (fst (kvs1 ! p)) mod n) z"
    from p have occ1: "fst (kvs1 ! p) \<noteq> None" by simp
    note sp = same[OF p(1) occ1]
    have "d < cyclic_dist n q z" using p q by simp
    from far[OF q(1) this] have sq: "kvs1 ! q = kvs ! q" .
    have occ: "fst (kvs ! p) \<noteq> None" using occ1 sp by simp
    have "fst (kvs ! q) \<noteq> None"
      using MojoMultiMap_fixup_inv_chain[OF inv p(1) occ _ q(1)] q(2) sp by simp
    with sq show "fst (kvs1 ! q) \<noteq> None" by simp
  qed
qed

lemma MojoMultiMap_probe_inv_buffer:
  assumes "MojoMultiMap_probe_inv h m"
  obtains kvs where "m_KeyValues m = Some kvs" "0 < m_TableCount m" "m_TableCount m \<le> length kvs"
proof (cases "m_KeyValues m")
  case None
  with assms show ?thesis by (simp add: MojoMultiMap_probe_inv_def)
next
  case (Some kvs)
  with assms that[of kvs] show ?thesis by (simp add: MojoMultiMap_probe_inv_def)
qed

lemma MojoMultiMap_remove_core:
  assumes wf: "m_KeyValues m = Some kvs" "m_TableCount m = n" "0 < n" "n \<le> length kvs"
    and inv: "MojoMultiMap_probe_inv h m" and em: "MojoMultiMap_has_empty m"
    and idx: "index < n" "fst (kvs ! index) \<noteq> None"
  shows "\<exists>m1 count m2. MojoMultiMap_ClearRun doomed m index 0 = Some (m1, count)
           \<and> MojoMultiMap_FixUp h m1 index count = Some m2
           \<and> MojoMultiMap_probe_inv h m2 \<and> MojoMultiMap_has_empty m2"
proof -
  from em obtain z0 where z0: "z0 < n" "fst (kvs ! z0) = None"
    using MojoMultiMap_has_empty_iff[OF wf(1,2,4)] by blast
  define d where "d = (LEAST d. fst (kvs ! ((index + d) mod n)) = None)"
  have "fst (kvs ! ((index + cyclic_dist n index z0) mod n)) = None"
    using cyclic_dist_reach[OF idx(1) z0(1)] z0(2) by simp
  then have dz: "fst (kvs ! ((index + d) mod n)) = None"
    and dle: "d \<le> cyclic_dist n index z0"
    unfolding d_def by (rule LeastI, rule Least_le)
  have dmin: "\<And>u. u < d \<Longrightarrow> fst (kvs ! ((index + u) mod n)) \<noteq> None"
    unfolding d_def by (rule not_less_Least)
  have dn: "d < n" using dle cyclic_dist_less[OF idx(1) z0(1)] by simp
  let ?z = "(index + d) mod n"
  have z: "?z < n" using wf(3) by simp
  have di: "cyclic_dist n index ?z = d" using cyclic_dist_step[OF idx(1) dn] .
  have run: "\<forall>q < n. 0 < cyclic_dist n q ?z \<and> cyclic_dist n q ?z \<le> d \<longrightarrow> fst (kvs ! q) \<noteq> None"
  proof (intro allI impI)
    fix q assume q: "q < n" "0 < cyclic_dist n q ?z \<and> cyclic_dist n q ?z \<le> d"
    then have "cyclic_dist n q ?z \<le> cyclic_dist n index ?z" using di by simp
    from cyclic_dist_back[OF idx(1) q(1) z this] di
    have "(index + (d - cyclic_dist n q ?z)) mod n = q" by simp
    moreover have "d - cyclic_dist n q ?z < d" using q(2) by arith
    ultimately show "fst (kvs ! q) \<noteq> None" using dmin by metis
  qed
  from MojoMultiMap_ClearRun_run[OF wf(3) z wf(1,2,4) idx(1) di dz run, of doomed 0]
  obtain m1 kvs1 where c: "MojoMultiMap_ClearRun doomed m index 0 = Some (m1, d)"
    and wf1: "m_KeyValues m1 = Some kvs1" "m_TableCount m1 = n" "length kvs1 = length kvs"
    and kvs1: "\<forall>q < n. kvs1 ! q =
                (if 0 < cyclic_dist n q ?z \<and> cyclic_dist n q ?z \<le> d \<and> doomed (kvs ! q)
                 then KeyValue_empty else kvs ! q)"
    by auto
  have inv0: "MojoMultiMap_fixup_inv h n ?z kvs 0"
    using MojoMultiMap_fixup_inv_0_iff[OF wf(3) z dz, of h]
      MojoMultiMap_probe_inv_iff[OF wf, of h] inv by blast
  have inv1: "MojoMultiMap_fixup_inv h n ?z kvs1 d"
    using MojoMultiMap_fixup_inv_cleared[OF inv0 kvs1] .
  have len1: "n \<le> length kvs1" using wf1(3) wf(4) by simp
  have fx: "MojoMultiMap_FixUp h m1 index d
            = MojoMultiMap_ReinsertEach h m1 (cyclic_run n ((index + 1) mod n) d)"
    unfolding MojoMultiMap_FixUp_ReinsertEach wf1(2) take_probe_cyclic_run[OF idx(1) dn] ..
  have nxt: "0 < d \<longrightarrow> (index + 1) mod n < n \<and> Suc (cyclic_dist n ((index + 1) mod n) ?z) = d"
  proof
    assume "0 < d"
    then have "1 \<le> cyclic_dist n index ?z" using di by simp
    from cyclic_dist_advance[OF idx(1) z this] di \<open>0 < d\<close> wf(3)
    show "(index + 1) mod n < n \<and> Suc (cyclic_dist n ((index + 1) mod n) ?z) = d" by simp
  qed
  from MojoMultiMap_ReinsertEach_fixup[OF wf(3) wf1(1,2) len1 inv1 nxt]
  obtain m2 kvs2 where r: "MojoMultiMap_ReinsertEach h m1 (cyclic_run n ((index + 1) mod n) d) = Some m2"
    and wf2: "m_KeyValues m2 = Some kvs2" "m_TableCount m2 = n" "length kvs2 = length kvs1"
    and inv2: "MojoMultiMap_fixup_inv h n ?z kvs2 0"
    by blast
  have len2: "n \<le> length kvs2" using wf2(3) len1 by simp
  have z2: "fst (kvs2 ! ?z) = None" using inv2 by (simp add: MojoMultiMap_fixup_inv_def)
  have "MojoMultiMap_probe_inv h m2"
    using MojoMultiMap_fixup_inv_0_iff[OF wf(3) z z2, of h]
      MojoMultiMap_probe_inv_iff[OF wf2(1,2) wf(3) len2, of h] inv2 by blast
  moreover have "MojoMultiMap_has_empty m2"
    using MojoMultiMap_has_empty_iff[OF wf2(1,2) len2] z z2 by blast
  ultimately show ?thesis using c fx r by auto
qed

lemma MojoMultiMap_FindEmptyOrMatching_index:
  assumes wf: "m_KeyValues m = Some kvs" "m_TableCount m = n" "0 < n" "n \<le> length kvs"
    and em: "MojoMultiMap_has_empty m"
  shows "\<exists>index < n. MojoMultiMap_FindEmptyOrMatching h m key = Some index"
proof -
  from em obtain z0 where z0: "z0 < n" "fst (kvs ! z0) = None"
    using MojoMultiMap_has_empty_iff[OF wf(1,2,4)] by blast
  let ?s = "h key mod n"
  let ?hit = "\<lambda>kv :: ('a, 'b) KeyValue. fst kv = None \<or> fst kv = key"
  have s: "?s < n" using wf(3) by simp
  have "?hit (kvs ! ((?s + cyclic_dist n ?s z0) mod n))"
    using cyclic_dist_reach[OF s z0(1)] z0(2) by simp
  from MojoMultiMap_FindWith_first_hit[OF wf cyclic_dist_less[OF s z0(1)], of ?hit h key, OF this]
  obtain t where "MojoMultiMap_FindWith ?hit h m key = Some ((?s + t) mod n)" by blast
  then show ?thesis using wf(3)
    by (intro exI[of _ "(?s + t) mod n"]) (simp add: MojoMultiMap_FindEmptyOrMatching_def)
qed

lemma MojoMultiMap_example_reached:
  "do { (m0, _) \<leftarrow> MojoMultiMap_Create nat_hash MojoMultiMap_new None MojoSet_cfg_4_8 [] None 0;
        (m1, _) \<leftarrow> MojoMultiMap_Insert nat_hash m0 (Some 1) (Some 10);
        (m2, _) \<leftarrow> MojoMultiMap_Insert nat_hash m1 (Some 2) (Some 20);
        (m3, _) \<leftarrow> MojoMultiMap_Insert nat_hash m2 (Some 1) (Some 11);
        Some m3 } = Some MojoMultiMap_example"
  by code_simp

text \<open>Claim C2, amended. The slots holding one key need not be adjacent: pairs of other
  keys may lie between them. What the removals preserve is that every stored pair is
  reached from the hash slot of its key through occupied slots only, so that all slots
  holding one key lie in one wrap-around run of occupied slots. On a table with this
  property and an empty hashed slot, \<^verbatim>\<open>RemoveAll\<close> and \<^verbatim>\<open>RemoveOne\<close> (each with its \<^verbatim>\<open>FixUp\<close>)
  return, and the table they leave has the property and an empty hashed slot again.\<close>

theorem MojoMultiMap_Remove_keeps_probe_inv:
  assumes inv: "MojoMultiMap_probe_inv h m" and em: "MojoMultiMap_has_empty m"
  shows "(\<exists>m' removed. MojoMultiMap_RemoveAll h m key = Some (m', removed)
            \<and> MojoMultiMap_probe_inv h m' \<and> MojoMultiMap_has_empty m')
       \<and> (\<exists>m' removed. MojoMultiMap_RemoveOne h m key val = Some (m', removed)
            \<and> MojoMultiMap_probe_inv h m' \<and> MojoMultiMap_has_empty m')"
proof -
  from inv obtain kvs where wf: "m_KeyValues m = Some kvs" "0 < m_TableCount m"
    "m_TableCount m \<le> length kvs"
    by (rule MojoMultiMap_probe_inv_buffer)
  let ?n = "m_TableCount m"
  from MojoMultiMap_FindEmptyOrMatching_index[OF wf(1) refl wf(2,3) em, of h key]
  obtain index where index: "index < ?n" "MojoMultiMap_FindEmptyOrMatching h m key = Some index"
    by blast
  have kvi: "KeyValueAt m index = Some (kvs ! index)"
    using wf index(1) by (simp add: KeyValueAt_def)
  have core: "\<And>doomed. fst (kvs ! index) \<noteq> None \<Longrightarrow>
      \<exists>m1 count m2. MojoMultiMap_ClearRun doomed m index 0 = Some (m1, count)
           \<and> MojoMultiMap_FixUp h m1 index count = Some m2
           \<and> MojoMultiMap_probe_inv h m2 \<and> MojoMultiMap_has_empty m2"
    using MojoMultiMap_remove_core[OF wf(1) refl wf(2,3) inv em index(1)] by blast
  have all: "\<exists>m' removed. MojoMultiMap_RemoveAll h m key = Some (m', removed)
            \<and> MojoMultiMap_probe_inv h m' \<and> MojoMultiMap_has_empty m'"
  proof (cases "key \<noteq> None \<and> fst (kvs ! index) \<noteq> None")
    case True
    then have occ: "fst (kvs ! index) \<noteq> None" by simp
    from core[OF occ, of "\<lambda>kv. fst kv = key"] obtain m1 count m2 where
      "MojoMultiMap_ClearRun (\<lambda>kv. fst kv = key) m index 0 = Some (m1, count)"
      "MojoMultiMap_FixUp h m1 index count = Some m2"
      "MojoMultiMap_probe_inv h m2" "MojoMultiMap_has_empty m2"
      by blast
    with True index(2) kvi show ?thesis
      by (simp add: MojoMultiMap_RemoveAll_def Let_def del: not_None_eq)
  next
    case False
    with index(2) kvi inv em show ?thesis
      by (auto simp: MojoMultiMap_RemoveAll_def Let_def simp del: not_None_eq)
  qed
  have one: "\<exists>m' removed. MojoMultiMap_RemoveOne h m key val = Some (m', removed)
            \<and> MojoMultiMap_probe_inv h m' \<and> MojoMultiMap_has_empty m'"
  proof (cases "(key \<noteq> None \<and> val \<noteq> None) \<and> fst (kvs ! index) \<noteq> None")
    case True
    then have occ: "fst (kvs ! index) \<noteq> None" by simp
    from core[OF occ, of "\<lambda>kv. fst kv = key \<and> snd kv = val"] obtain m1 count m2 where
      "MojoMultiMap_ClearRun (\<lambda>kv. fst kv = key \<and> snd kv = val) m index 0 = Some (m1, count)"
      "MojoMultiMap_FixUp h m1 index count = Some m2"
      "MojoMultiMap_probe_inv h m2" "MojoMultiMap_has_empty m2"
      by blast
    with True index(2) kvi show ?thesis
      by (simp add: MojoMultiMap_RemoveOne_def Let_def del: not_None_eq)
  next
    case False
    with index(2) kvi inv em show ?thesis
      by (auto simp: MojoMultiMap_RemoveOne_def Let_def simp del: not_None_eq)
  qed
  from all one show ?thesis by blast
qed

theorem MojoMultiMap_Remove_keeps_probe_inv_witness:
  "MojoMultiMap_probe_inv nat_hash MojoMultiMap_example
   \<and> MojoMultiMap_has_empty MojoMultiMap_example
   \<and> (\<exists>m' removed. MojoMultiMap_RemoveAll nat_hash MojoMultiMap_example (Some 1) = Some (m', removed)
          \<and> MojoMultiMap_probe_inv nat_hash m' \<and> MojoMultiMap_has_empty m')
   \<and> (\<exists>m' removed. MojoMultiMap_RemoveOne nat_hash MojoMultiMap_example (Some 1) (Some 10)
                       = Some (m', removed)
          \<and> MojoMultiMap_probe_inv nat_hash m' \<and> MojoMultiMap_has_empty m')
   \<and> map_option (\<lambda>(m', removed). (m_KeyValues m', removed))
        (MojoMultiMap_RemoveOne nat_hash MojoMultiMap_example (Some 1) (Some 10))
      = Some (Some [(None, None), (Some 1, Some 11), (Some 2, Some 20), (None, None),
                    (None, None), (None, None), (None, None), (None, None)], True)"
proof -
  have a: "MojoMultiMap_probe_inv nat_hash MojoMultiMap_example" by code_simp
  have b: "MojoMultiMap_has_empty MojoMultiMap_example" by code_simp
  have c: "map_option (\<lambda>(m', removed). (m_KeyValues m', removed))
        (MojoMultiMap_RemoveOne nat_hash MojoMultiMap_example (Some 1) (Some 10))
      = Some (Some [(None, None), (Some 1, Some 11), (Some 2, Some 20), (None, None),
                    (None, None), (None, None), (None, None), (None, None)], True)"
    by code_simp
  from MojoMultiMap_Remove_keeps_probe_inv[OF a b, of "Some 1" "Some 10"] a b c
  show ?thesis by blast
qed

text \<open>The slots holding one key are not one contiguous run. After \<^verbatim>\<open>Insert\<close> of (1, 10),
  (2, 20), (1, 11) into 4 hashed slots the key 1 is in the slots 1 and 3. And in 8 hashed
  slots holding (8, 1), (1, 1), (16, 1), (16, 2) in the slots 0 to 3, where every key is in
  adjacent slots, \<^verbatim>\<open>Remove( 8 )\<close> with its \<^verbatim>\<open>FixUp\<close> leaves the key 16 in the slots 0 and 2.\<close>

theorem MojoMultiMap_key_not_contiguous:
  "do { (m0, _) \<leftarrow> MojoMultiMap_Create nat_hash (MojoMultiMap_new :: (nat, nat) MojoMultiMap)
                     None MojoSet_cfg_4_8 [] None 0;
        (m1, _) \<leftarrow> MojoMultiMap_Insert nat_hash m0 (Some 1) (Some 10);
        (m2, _) \<leftarrow> MojoMultiMap_Insert nat_hash m1 (Some 2) (Some 20);
        (m3, st) \<leftarrow> MojoMultiMap_Insert nat_hash m2 (Some 1) (Some 11);
        Some (st, MojoMultiMap_slots_of m3 (Some 1), MojoMultiMap_key_contiguous m3 (Some 1)) }
   = Some (kMojoStatus_Ok, [1, 3], False)
   \<and>
   do { (m0, _) \<leftarrow> MojoMultiMap_Create nat_hash (MojoMultiMap_new :: (nat, nat) MojoMultiMap)
                     None MojoSet_cfg_8_8 [] None 0;
        (m1, _) \<leftarrow> MojoMultiMap_Insert nat_hash m0 (Some 8) (Some 1);
        (m2, _) \<leftarrow> MojoMultiMap_Insert nat_hash m1 (Some 1) (Some 1);
        (m3, _) \<leftarrow> MojoMultiMap_Insert nat_hash m2 (Some 16) (Some 1);
        (m4, _) \<leftarrow> MojoMultiMap_Insert nat_hash m3 (Some 16) (Some 2);
        (m5, st) \<leftarrow> MojoMultiMap_Remove nat_hash m4 (Some 8);
        Some (MojoMultiMap_slots_of m4 (Some 16), MojoMultiMap_key_contiguous m4 (Some 16),
              st, MojoMultiMap_slots_of m5 (Some 16), MojoMultiMap_key_contiguous m5 (Some 16)) }
   = Some ([2, 3], True, kMojoStatus_Ok, [0, 2], False)"
  by code_simp

end
